theory Spec2Isabelle
  imports Main "HOL-Library.Sublist"
begin

section \<open>Strings\<close>

text \<open>
  The agent of \<^verbatim>\<open>src/single_file_agent/agent.ts\<close> works on JavaScript strings. They are
  modelled as \<^typ>\<open>string\<close>; a character stands for the code unit of the same number
  (U+0000 to U+00FF). On this range the whitespace of \<^verbatim>\<open>\s\<close> and of \<^verbatim>\<open>trim()\<close> is
  TAB, LF, VT, FF, CR, SPACE and NBSP, the line terminators that \<^verbatim>\<open>.\<close> refuses are LF
  and CR, and \<^verbatim>\<open>toLowerCase()\<close> moves A-Z and the capital letters of U+00C0 to U+00DE
  (but not the multiplication sign U+00D7) by 32.
\<close>

definition is_space :: "char \<Rightarrow> bool" where
  "is_space c = (c \<in> set [CHR 0x09, CHR 0x0A, CHR 0x0B, CHR 0x0C, CHR 0x0D, CHR 0x20, CHR 0xA0])"

definition is_line_terminator :: "char \<Rightarrow> bool" where
  "is_line_terminator c = (c = CHR 0x0A \<or> c = CHR 0x0D)"

definition is_digit :: "char \<Rightarrow> bool" where
  "is_digit c = (c \<in> set ''0123456789'')"

definition trim :: "string \<Rightarrow> string" where
  "trim s = rev (dropWhile is_space (rev (dropWhile is_space s)))"

definition lower_char :: "char \<Rightarrow> char" where
  "lower_char c =
     (let n = of_char c :: nat
      in if (65 \<le> n \<and> n \<le> 90) \<or> (192 \<le> n \<and> n \<le> 222 \<and> n \<noteq> 215)
         then char_of (n + 32) else c)"

definition toLowerCase :: "string \<Rightarrow> string" where
  "toLowerCase s = map lower_char s"

definition dquote :: char where
  "dquote = CHR 0x22"

definition newline :: char where
  "newline = CHR 0x0A"

section \<open>Regular expressions\<close>

text \<open>
  The three regular expressions of the source are sequences of literals, greedy
  repetitions of one character class (\<^verbatim>\<open>\s*\<close>, \<^verbatim>\<open>[^\[]+\<close>), capturing groups around
  such a repetition (\<^verbatim>\<open>([^\]]+)\<close>, \<^verbatim>\<open>(.*)\<close>) and the anchors \<^verbatim>\<open>^\<close> and \<^verbatim>\<open>$\<close>,
  which without the \<^verbatim>\<open>m\<close> flag hold at the start and at the end of the input only.
  \<open>Rep p n\<close> repeats class \<open>p\<close> at least \<open>n\<close> times, \<open>Cap p n\<close> also captures.

  \<open>matches\<close> is the backtracking matcher at one start position: a greedy repetition
  first takes the longest run and gives characters back one at a time while the rest
  of the pattern fails. The result is the list of captured groups.
  \<open>search\<close> tries the start positions from left to right, as \<^verbatim>\<open>RegExp.prototype.exec\<close>
  does for a pattern without flags.
\<close>

datatype atom =
    Lit string
  | Rep "char \<Rightarrow> bool" nat
  | Cap "char \<Rightarrow> bool" nat
  | Bol
  | Eol

fun backtrack :: "(nat \<Rightarrow> 'a option) \<Rightarrow> nat \<Rightarrow> nat \<Rightarrow> 'a option" where
  "backtrack f lo 0 = (if lo = 0 then f 0 else None)"
| "backtrack f lo (Suc k) =
     (if Suc k < lo then None
      else case f (Suc k) of Some r \<Rightarrow> Some r | None \<Rightarrow> backtrack f lo k)"

fun matches :: "atom list \<Rightarrow> nat \<Rightarrow> string \<Rightarrow> string list option" where
  "matches [] i s = Some []"
| "matches (Lit l # as) i s =
     (if prefix l s then matches as (i + length l) (drop (length l) s) else None)"
| "matches (Rep p n # as) i s =
     backtrack (\<lambda>k. matches as (i + k) (drop k s)) n (length (takeWhile p s))"
| "matches (Cap p n # as) i s =
     backtrack (\<lambda>k. map_option (Cons (take k s)) (matches as (i + k) (drop k s)))
       n (length (takeWhile p s))"
| "matches (Bol # as) i s = (if i = 0 then matches as i s else None)"
| "matches (Eol # as) i s = (if s = [] then matches as i s else None)"

fun search :: "atom list \<Rightarrow> nat \<Rightarrow> string \<Rightarrow> string list option" where
  "search re i [] = matches re i []"
| "search re i (c # cs) =
     (case matches re i (c # cs) of Some g \<Rightarrow> Some g | None \<Rightarrow> search re (Suc i) cs)"

definition regex_match :: "atom list \<Rightarrow> string \<Rightarrow> string list option" where
  "regex_match re s = search re 0 s"

definition regex_test :: "atom list \<Rightarrow> string \<Rightarrow> bool" where
  "regex_test re s = (regex_match re s \<noteq> None)"

text \<open>\<^verbatim>\<open>/^[0-9.+\-*\/()\s]+$/\<close>, the filter of the Calculator.\<close>

definition expression_char :: "char \<Rightarrow> bool" where
  "expression_char c = (is_digit c \<or> c \<in> set ''.+-*/()'' \<or> is_space c)"

definition expression_re :: "atom list" where
  "expression_re = [Bol, Rep expression_char 1, Eol]"

text \<open>\<^verbatim>\<open>/Action:\s*([^\[]+)\[([^\]]+)\]/\<close>, the action pattern of \<^verbatim>\<open>tool_executor\<close>.\<close>

definition action_re :: "atom list" where
  "action_re =
     [Lit ''Action:'', Rep is_space 0, Cap (\<lambda>c. c \<noteq> CHR ''['') 1, Lit ''['',
      Cap (\<lambda>c. c \<noteq> CHR '']'') 1, Lit '']'']"

text \<open>\<^verbatim>\<open>/Answer:\s*(.*)$/\<close>, the answer pattern of \<^verbatim>\<open>response_generator\<close>.\<close>

definition answer_re :: "atom list" where
  "answer_re =
     [Lit ''Answer:'', Rep is_space 0, Cap (\<lambda>c. \<not> is_line_terminator c) 0, Eol]"

section \<open>Errors\<close>

text \<open>
  A thrown JavaScript error is a value: its name (\<^verbatim>\<open>Error\<close>, \<^verbatim>\<open>TypeError\<close>,
  \<^verbatim>\<open>SyntaxError\<close>, ...) and its \<^verbatim>\<open>message\<close>. A function that can throw returns
  \<open>error + 'a\<close>, \<open>Inl\<close> for the throw.
\<close>

datatype error = JSError (error_name: string) (message: string)

section \<open>The expression evaluator behind the Calculator\<close>

text \<open>
  The Calculator hands \<^verbatim>\<open>"return (" + input + ")"\<close> to the \<^verbatim>\<open>Function\<close> constructor
  of the JavaScript engine and calls the result. The engine is not code of the
  repository. What the language definition fixes and what can be computed exactly is
  modelled here: programs \<^verbatim>\<open>return (\<close>\<open>e\<close> where \<open>e\<close> is built from decimal integer
  literals, the binary operators \<^verbatim>\<open>+ - * /\<close>, unary \<^verbatim>\<open>+\<close> and \<^verbatim>\<open>-\<close>, parentheses and
  whitespace, as long as every value met is an integer of magnitude at most \<open>2 ^ 53\<close>
  (with the sign of zero), an infinity or NaN. On these IEEE 754 arithmetic is exact.
  Everything else (fractions, rounding, \<^verbatim>\<open>**\<close>, \<^verbatim>\<open>++\<close>, comments, regular expression
  literals, legacy octal literals, calls, syntax errors and the texts of error
  messages) is left to a parameter \<open>engine\<close>, the outcome of the real engine on that
  source text.
\<close>

datatype number = NaN | Infinity bool | Finite bool int

text \<open>
  \<open>Infinity neg\<close> and \<open>Finite neg magnitude\<close>: the flag is the sign bit, the magnitude
  is not negative.
\<close>

definition safe :: "int \<Rightarrow> bool" where
  "safe m = (m \<le> 2 ^ 53)"

definition signed :: "bool \<Rightarrow> int \<Rightarrow> int" where
  "signed neg m = (if neg then - m else m)"

fun Number_unaryMinus :: "number \<Rightarrow> number" where
  "Number_unaryMinus NaN = NaN"
| "Number_unaryMinus (Infinity a) = Infinity (\<not> a)"
| "Number_unaryMinus (Finite a m) = Finite (\<not> a) m"

fun Number_add :: "number \<Rightarrow> number \<Rightarrow> number option" where
  "Number_add NaN y = Some NaN"
| "Number_add x NaN = Some NaN"
| "Number_add (Infinity a) (Infinity b) = Some (if a = b then Infinity a else NaN)"
| "Number_add (Infinity a) (Finite b n) = Some (Infinity a)"
| "Number_add (Finite a m) (Infinity b) = Some (Infinity b)"
| "Number_add (Finite a m) (Finite b n) =
     (let z = signed a m + signed b n
      in if z = 0 then Some (Finite (a \<and> b) 0)
         else if safe \<bar>z\<bar> then Some (Finite (z < 0) \<bar>z\<bar>)
         else None)"

definition Number_subtract :: "number \<Rightarrow> number \<Rightarrow> number option" where
  "Number_subtract x y = Number_add x (Number_unaryMinus y)"

fun Number_multiply :: "number \<Rightarrow> number \<Rightarrow> number option" where
  "Number_multiply NaN y = Some NaN"
| "Number_multiply x NaN = Some NaN"
| "Number_multiply (Infinity a) (Infinity b) = Some (Infinity (a \<noteq> b))"
| "Number_multiply (Infinity a) (Finite b n) =
     Some (if n = 0 then NaN else Infinity (a \<noteq> b))"
| "Number_multiply (Finite a m) (Infinity b) =
     Some (if m = 0 then NaN else Infinity (a \<noteq> b))"
| "Number_multiply (Finite a m) (Finite b n) =
     (if safe (m * n) then Some (Finite (a \<noteq> b) (m * n)) else None)"

fun Number_divide :: "number \<Rightarrow> number \<Rightarrow> number option" where
  "Number_divide NaN y = Some NaN"
| "Number_divide x NaN = Some NaN"
| "Number_divide (Infinity a) (Infinity b) = Some NaN"
| "Number_divide (Infinity a) (Finite b n) = Some (Infinity (a \<noteq> b))"
| "Number_divide (Finite a m) (Infinity b) = Some (Finite (a \<noteq> b) 0)"
| "Number_divide (Finite a m) (Finite b n) =
     (if n = 0 then Some (if m = 0 then NaN else Infinity (a \<noteq> b))
      else if n dvd m then Some (Finite (a \<noteq> b) (m div n))
      else None)"

definition digit_char :: "int \<Rightarrow> char" where
  "digit_char d = ''0123456789'' ! nat d"

function decimal :: "int \<Rightarrow> string" where
  "decimal n =
     (if n < 10 then [digit_char n]
      else decimal (n div 10) @ [digit_char (n mod 10)])"
  by pat_completeness auto
termination
  by (relation "measure nat") auto

fun Number_toString :: "number \<Rightarrow> string" where
  "Number_toString NaN = ''NaN''"
| "Number_toString (Infinity neg) = (if neg then ''-Infinity'' else ''Infinity'')"
| "Number_toString (Finite neg m) =
     (if m = 0 then ''0'' else (if neg then ''-'' else []) @ decimal m)"

datatype token = NUM int | PLUS | MINUS | STAR | SLASH | LPAREN | RPAREN

definition digit_value :: "char \<Rightarrow> int" where
  "digit_value c = int (length (takeWhile (\<lambda>d. d \<noteq> c) ''0123456789''))"

definition literal_value :: "string \<Rightarrow> int" where
  "literal_value ds = foldl (\<lambda>v c. 10 * v + digit_value c) 0 ds"

text \<open>
  The tokens of the fragment. A literal is a maximal run of digits; one that starts
  with \<^verbatim>\<open>0\<close> and goes on is a legacy octal literal and is not of the fragment, nor is
  one beyond \<open>2 ^ 53\<close>, which the engine rounds. \<^verbatim>\<open>++\<close> and \<^verbatim>\<open>--\<close> are single tokens of
  the language, so two adjacent signs are refused, and so is \<^verbatim>\<open>.\<close>.
\<close>

function tokens :: "string \<Rightarrow> token list option" where
  "tokens [] = Some []"
| "tokens (c # cs) =
     (if is_space c then tokens cs
      else if is_digit c then
        (let ds = c # takeWhile is_digit cs
         in if (c = CHR ''0'' \<and> length ds > 1) \<or> \<not> safe (literal_value ds) then None
            else map_option (Cons (NUM (literal_value ds))) (tokens (dropWhile is_digit cs)))
      else if c = CHR ''+'' then
        (case cs of
           d # _ \<Rightarrow> if d = CHR ''+'' then None else map_option (Cons PLUS) (tokens cs)
         | [] \<Rightarrow> Some [PLUS])
      else if c = CHR ''-'' then
        (case cs of
           d # _ \<Rightarrow> if d = CHR ''-'' then None else map_option (Cons MINUS) (tokens cs)
         | [] \<Rightarrow> Some [MINUS])
      else if c = CHR ''*'' then map_option (Cons STAR) (tokens cs)
      else if c = CHR ''/'' then map_option (Cons SLASH) (tokens cs)
      else if c = CHR ''('' then map_option (Cons LPAREN) (tokens cs)
      else if c = CHR '')'' then map_option (Cons RPAREN) (tokens cs)
      else None)"
  by pat_completeness auto
termination
  by (relation "measure length") (auto simp: less_Suc_eq_le length_dropWhile_le)

datatype expr =
    Literal int
  | Plus expr
  | Minus expr
  | Add expr expr
  | Sub expr expr
  | Mul expr expr
  | Div expr expr

text \<open>
  Recursive descent along the grammar of the language:
  AdditiveExpression, MultiplicativeExpression, UnaryExpression and
  PrimaryExpression; the binary operators associate to the left. Each parser returns
  the expression and the tokens left over.
\<close>

function (sequential)
    additive :: "token list \<Rightarrow> (expr \<times> token list) option"
and additive_rest :: "expr \<Rightarrow> token list \<Rightarrow> (expr \<times> token list) option"
and multiplicative :: "token list \<Rightarrow> (expr \<times> token list) option"
and multiplicative_rest :: "expr \<Rightarrow> token list \<Rightarrow> (expr \<times> token list) option"
and unary :: "token list \<Rightarrow> (expr \<times> token list) option"
and primary :: "token list \<Rightarrow> (expr \<times> token list) option"
where
  "additive ts =
     (case multiplicative ts of
        None \<Rightarrow> None
      | Some (l, r) \<Rightarrow> if length r \<le> length ts then additive_rest l r else None)"
| "additive_rest l (PLUS # ts) =
     (case multiplicative ts of
        None \<Rightarrow> None
      | Some (x, r) \<Rightarrow> if length r \<le> length ts then additive_rest (Add l x) r else None)"
| "additive_rest l (MINUS # ts) =
     (case multiplicative ts of
        None \<Rightarrow> None
      | Some (x, r) \<Rightarrow> if length r \<le> length ts then additive_rest (Sub l x) r else None)"
| "additive_rest l ts = Some (l, ts)"
| "multiplicative ts =
     (case unary ts of
        None \<Rightarrow> None
      | Some (l, r) \<Rightarrow> if length r \<le> length ts then multiplicative_rest l r else None)"
| "multiplicative_rest l (STAR # ts) =
     (case unary ts of
        None \<Rightarrow> None
      | Some (x, r) \<Rightarrow>
          if length r \<le> length ts then multiplicative_rest (Mul l x) r else None)"
| "multiplicative_rest l (SLASH # ts) =
     (case unary ts of
        None \<Rightarrow> None
      | Some (x, r) \<Rightarrow>
          if length r \<le> length ts then multiplicative_rest (Div l x) r else None)"
| "multiplicative_rest l ts = Some (l, ts)"
| "unary (PLUS # ts) = map_option (\<lambda>(e, r). (Plus e, r)) (unary ts)"
| "unary (MINUS # ts) = map_option (\<lambda>(e, r). (Minus e, r)) (unary ts)"
| "unary ts = primary ts"
| "primary (NUM n # ts) = Some (Literal n, ts)"
| "primary (LPAREN # ts) =
     (case additive ts of
        Some (e, RPAREN # r) \<Rightarrow> Some (e, r)
      | _ \<Rightarrow> None)"
| "primary ts = None"
  by pat_completeness auto
termination
  by (relation "measures
        [\<lambda>x. case x of
              Inl (Inl ts) \<Rightarrow> length ts
            | Inl (Inr (Inl (l, ts))) \<Rightarrow> length ts
            | Inl (Inr (Inr ts)) \<Rightarrow> length ts
            | Inr (Inl (l, ts)) \<Rightarrow> length ts
            | Inr (Inr (Inl ts)) \<Rightarrow> length ts
            | Inr (Inr (Inr ts)) \<Rightarrow> length ts,
         \<lambda>x. case x of
              Inl (Inl ts) \<Rightarrow> 5
            | Inl (Inr (Inl (l, ts))) \<Rightarrow> 0
            | Inl (Inr (Inr ts)) \<Rightarrow> 4
            | Inr (Inl (l, ts)) \<Rightarrow> 0
            | Inr (Inr (Inl ts)) \<Rightarrow> 3
            | Inr (Inr (Inr ts)) \<Rightarrow> (2::nat)]") auto

fun eval :: "expr \<Rightarrow> number option" where
  "eval (Literal n) = Some (Finite False n)"
| "eval (Plus e) = eval e"
| "eval (Minus e) = map_option Number_unaryMinus (eval e)"
| "eval (Add l r) =
     (case eval l of None \<Rightarrow> None
      | Some x \<Rightarrow> (case eval r of None \<Rightarrow> None | Some y \<Rightarrow> Number_add x y))"
| "eval (Sub l r) =
     (case eval l of None \<Rightarrow> None
      | Some x \<Rightarrow> (case eval r of None \<Rightarrow> None | Some y \<Rightarrow> Number_subtract x y))"
| "eval (Mul l r) =
     (case eval l of None \<Rightarrow> None
      | Some x \<Rightarrow> (case eval r of None \<Rightarrow> None | Some y \<Rightarrow> Number_multiply x y))"
| "eval (Div l r) =
     (case eval l of None \<Rightarrow> None
      | Some x \<Rightarrow> (case eval r of None \<Rightarrow> None | Some y \<Rightarrow> Number_divide x y))"

definition arith_program :: "string \<Rightarrow> number option" where
  "arith_program src =
     (if prefix ''return ('' src then
        (case tokens (drop 7 src) of
           None \<Rightarrow> None
         | Some ts \<Rightarrow> (case additive ts of Some (e, []) \<Rightarrow> eval e | _ \<Rightarrow> None))
      else None)"

datatype jsvalue = Number number | Opaque string

text \<open>
  \<open>Opaque text\<close> is a value the engine returned from outside the fragment, given by
  the text that \<^verbatim>\<open>String()\<close> renders it to (\<^verbatim>\<open>3.5\<close> for seven halves).
\<close>

type_synonym engine = "string \<Rightarrow> error + jsvalue"

definition Function_call :: "engine \<Rightarrow> string \<Rightarrow> error + jsvalue" where
  "Function_call engine src =
     (case arith_program src of Some n \<Rightarrow> Inr (Number n) | None \<Rightarrow> engine src)"

fun String_of :: "jsvalue \<Rightarrow> string" where
  "String_of (Number n) = Number_toString n"
| "String_of (Opaque text) = text"

section \<open>The data of the agent\<close>

text \<open>The interfaces \<^verbatim>\<open>ChatMessage\<close>, \<^verbatim>\<open>Tool\<close> and \<^verbatim>\<open>AgentState\<close>.\<close>

datatype Role = system | user | assistant

record ChatMessage =
  role :: Role
  content :: string

text \<open>
  \<^verbatim>\<open>run\<close> may throw (or return a promise that rejects, which \<^verbatim>\<open>await\<close> turns into a
  throw): \<open>Inl\<close> is the error thrown, \<open>Inr\<close> the text returned.
\<close>

record Tool =
  name :: string
  description :: string
  run :: "string \<Rightarrow> error + string"

text \<open>\<^verbatim>\<open>final_answer?: string\<close> is absent (\<open>None\<close>) until it is assigned.\<close>

record AgentState =
  messages :: "ChatMessage list"
  tools :: "Tool list"
  current_step :: int
  final_answer :: "string option"

section \<open>The Calculator tool\<close>

text \<open>
  \<^verbatim>\<open>run\<close> of the Calculator: the filter, then the evaluation inside \<^verbatim>\<open>try\<close>, any error
  caught and turned into text. The result comes with the list of the source texts
  that were handed to \<^verbatim>\<open>Function\<close>, in order, so that a claim about the evaluator not
  being called can be stated.
\<close>

definition Calculator_run :: "engine \<Rightarrow> string \<Rightarrow> string \<times> string list" where
  "Calculator_run engine input =
     (if \<not> regex_test expression_re input then (''Invalid expression'', [])
      else
        (case Function_call engine (''return ('' @ input @ '')'') of
           Inr result \<Rightarrow> String_of result
         | Inl err \<Rightarrow> ''Error: '' @ message err,
         [''return ('' @ input @ '')'']))"

definition Calculator :: "engine \<Rightarrow> Tool" where
  "Calculator engine =
     \<lparr>name = ''Calculator'',
      description = ''Performs arithmetic calculations. Usage: Calculator[expression]'',
      run = (\<lambda>input. Inr (fst (Calculator_run engine input)))\<rparr>"

text \<open>The array \<^verbatim>\<open>tools\<close> of the source.\<close>

definition tools_array :: "engine \<Rightarrow> Tool list" where
  "tools_array engine = [Calculator engine]"

section \<open>The system prompt\<close>

fun join :: "string \<Rightarrow> string list \<Rightarrow> string" where
  "join sep [] = []"
| "join sep [x] = x"
| "join sep (x # y # ys) = x @ sep @ join sep (y # ys)"

definition toolDescriptions :: "Tool list \<Rightarrow> string" where
  "toolDescriptions ts = join [newline] (map (\<lambda>t. name t @ '': '' @ description t) ts)"

definition systemPrompt :: "Tool list \<Rightarrow> string" where
  "systemPrompt ts = join [newline]
     [''You are a smart assistant with access to the following tools:'',
      toolDescriptions ts,
      [],
      ''When answering the user, you may use the tools to gather information or calculate results.'',
      ''Follow this format strictly:'',
      ''Thought: <your reasoning here>'',
      ''Action: <ToolName>[<tool input>]'',
      ''Observation: <result of the tool action>'',
      ''... (you can repeat Thought/Action/Observation as needed) ...'',
      ''Thought: <final reasoning>'',
      ''Answer: <your final answer to the user'' @ [CHR 0x27] @ ''s query>'',
      [],
      ''Only provide one action at a time, and wait for the observation before continuing. '',
      ''If the answer is directly known or once you have gathered enough information, output the final Answer.'',
      []]"

section \<open>The nodes of the workflow\<close>

text \<open>
  \<^verbatim>\<open>callOpenRouter\<close> talks to the network. It is a parameter here: a function from the
  messages sent to the text of the reply, or to the error it throws (HTTP status not
  ok, no content in the response, a failing \<^verbatim>\<open>fetch\<close>).
\<close>

type_synonym model = "ChatMessage list \<Rightarrow> error + string"

text \<open>Node \<^verbatim>\<open>parse_input\<close>: one call of the model, the reply appended.\<close>

definition parse_input :: "model \<Rightarrow> AgentState \<Rightarrow> error + AgentState" where
  "parse_input callOpenRouter state =
     (case callOpenRouter (messages state) of
        Inl err \<Rightarrow> Inl err
      | Inr reply \<Rightarrow>
          Inr (state\<lparr>messages := messages state @ [\<lparr>role = assistant, content = reply\<rparr>]\<rparr>))"

text \<open>
  Reading a property of \<^verbatim>\<open>undefined\<close> throws a \<^verbatim>\<open>TypeError\<close> whose message names the
  property.
\<close>

definition cannot_read :: "string \<Rightarrow> error" where
  "cannot_read property =
     JSError ''TypeError''
       (''Cannot read properties of undefined (reading '' @ [CHR 0x27] @ property @
        [CHR 0x27] @ '')'')"

text \<open>
  \<^verbatim>\<open>state.messages[state.messages.length - 1].content\<close> is such a reading when there
  is no message.
\<close>

definition no_last_message :: error where
  "no_last_message = cannot_read ''content''"

text \<open>\<^verbatim>\<open>state.tools.find(t => t.name.toLowerCase() === toolName.trim().toLowerCase())\<close>\<close>

definition find_tool :: "Tool list \<Rightarrow> string \<Rightarrow> Tool option" where
  "find_tool ts toolName =
     List.find (\<lambda>t. toLowerCase (name t) = toLowerCase (trim toolName)) ts"

text \<open>
  The text that \<^verbatim>\<open>tool_executor\<close> binds to \<^verbatim>\<open>observation\<close>: the tool is looked up
  by the trimmed name, the message for a missing tool quotes the name as captured.
\<close>

definition observation_text :: "Tool list \<Rightarrow> string \<Rightarrow> string \<Rightarrow> string" where
  "observation_text ts toolName toolInput =
     (case find_tool ts toolName of
        None \<Rightarrow> ''Tool '' @ [dquote] @ toolName @ [dquote] @ '' not found''
      | Some tool \<Rightarrow>
          (case run tool (trim toolInput) of
             Inr result \<Rightarrow> result
           | Inl err \<Rightarrow> ''Error: '' @ message err))"

text \<open>
  Node \<^verbatim>\<open>tool_executor\<close>. A capture group that did not take part in a match would be
  \<^verbatim>\<open>undefined\<close> and \<^verbatim>\<open>trim\<close> on it would throw; both groups of the action pattern
  always take part.
\<close>

definition tool_executor :: "AgentState \<Rightarrow> error + AgentState" where
  "tool_executor state =
     (if messages state = [] then Inl no_last_message
      else
        (case regex_match action_re (content (last (messages state))) of
           None \<Rightarrow> Inr state
         | Some (toolName # toolInput # _) \<Rightarrow>
             Inr (state\<lparr>messages := messages state @
                   [\<lparr>role = system,
                     content = ''Observation: '' @
                       observation_text (tools state) toolName toolInput\<rparr>]\<rparr>)
         | Some _ \<Rightarrow> Inl (cannot_read ''trim'')))"

text \<open>Node \<^verbatim>\<open>response_generator\<close>.\<close>

definition response_generator :: "AgentState \<Rightarrow> error + AgentState" where
  "response_generator state =
     (if messages state = [] then Inl no_last_message
      else
        (case regex_match answer_re (content (last (messages state))) of
           Some (answer # _) \<Rightarrow> Inr (state\<lparr>final_answer := Some (trim answer)\<rparr>)
         | Some [] \<Rightarrow> Inl (cannot_read ''trim'')
         | None \<Rightarrow> Inr (state\<lparr>current_step := current_step state + 1\<rparr>)))"

section \<open>The graph\<close>

text \<open>
  The workflow is a graph of the three nodes with the edges
  \<^verbatim>\<open>parse_input\<close> to \<^verbatim>\<open>tool_executor\<close>, \<^verbatim>\<open>tool_executor\<close> to \<^verbatim>\<open>response_generator\<close>
  and a conditional edge from \<^verbatim>\<open>response_generator\<close> to \<^verbatim>\<open>END\<close> or back to
  \<^verbatim>\<open>parse_input\<close>. The graph library is not code of the repository; it is taken at the
  meaning of these declarations: the state returned by a node is the state given to the
  next node, and an error thrown by a node ends the run with that error. A bound that
  the library may put on the number of nodes it runs is not part of the model. The
  run of the nodes is defined from any node; which node a call of \<^verbatim>\<open>graph.invoke\<close>
  enters is the matter of \<open>entry_points\<close> below.
\<close>

datatype node = Parse_input | Tool_executor | Response_generator | END

text \<open>
  The condition of \<^verbatim>\<open>addConditionalEdges\<close>. \<^verbatim>\<open>if (state.final_answer)\<close> holds for a
  present and non-empty text.
\<close>

definition truthy :: "string option \<Rightarrow> bool" where
  "truthy a = (case a of None \<Rightarrow> False | Some text \<Rightarrow> text \<noteq> [])"

definition conditional_edge :: "AgentState \<Rightarrow> node" where
  "conditional_edge state =
     (if truthy (final_answer state) then END
      else if current_step state \<ge> 10 then END
      else Parse_input)"

text \<open>One node and the edge that leaves it. \<^verbatim>\<open>END\<close> has no node and no edge.\<close>

fun node_step :: "model \<Rightarrow> node \<Rightarrow> AgentState \<Rightarrow> error + node \<times> AgentState" where
  "node_step callOpenRouter Parse_input state =
     (case parse_input callOpenRouter state of
        Inl err \<Rightarrow> Inl err
      | Inr state' \<Rightarrow> Inr (Tool_executor, state'))"
| "node_step callOpenRouter Tool_executor state =
     (case tool_executor state of
        Inl err \<Rightarrow> Inl err
      | Inr state' \<Rightarrow> Inr (Response_generator, state'))"
| "node_step callOpenRouter Response_generator state =
     (case response_generator state of
        Inl err \<Rightarrow> Inl err
      | Inr state' \<Rightarrow> Inr (conditional_edge state', state'))"
| "node_step callOpenRouter END state = Inr (END, state)"

text \<open>
  The run of the graph from a node. The model may keep the loop going for ever (an
  empty answer ends nothing and counts no step), so the run takes fuel, one unit for
  each node: \<open>None\<close> is a run that needs more, \<open>Some (Inl err)\<close> a run that threw,
  \<open>Some (Inr state)\<close> a run that reached \<^verbatim>\<open>END\<close>.
\<close>

fun graph_run :: "nat \<Rightarrow> model \<Rightarrow> node \<Rightarrow> AgentState \<Rightarrow> (error + AgentState) option" where
  "graph_run 0 callOpenRouter n state = (if n = END then Some (Inr state) else None)"
| "graph_run (Suc fuel) callOpenRouter n state =
     (if n = END then Some (Inr state)
      else
        (case node_step callOpenRouter n state of
           Inl err \<Rightarrow> Some (Inl err)
         | Inr (n', state') \<Rightarrow> graph_run fuel callOpenRouter n' state'))"

text \<open>The nodes that the run executes, in order.\<close>

fun visited :: "nat \<Rightarrow> model \<Rightarrow> node \<Rightarrow> AgentState \<Rightarrow> node list" where
  "visited 0 callOpenRouter n state = []"
| "visited (Suc fuel) callOpenRouter n state =
     (if n = END then []
      else
        n # (case node_step callOpenRouter n state of
               Inl err \<Rightarrow> []
             | Inr (n', state') \<Rightarrow> visited fuel callOpenRouter n' state'))"

text \<open>
  The nodes that the graph enters at its start. The source declares the three nodes,
  the two edges and the conditional edge, and nothing else before
  \<^verbatim>\<open>workflow.compile()\<close>: no edge leaves the start of the graph and no entry point is
  set.
\<close>

definition entry_points :: "node list" where
  "entry_points = []"

text \<open>
  \<^verbatim>\<open>graph.invoke\<close>: the run from the entry point. With none, no node is run and the
  promise resolves to \<^verbatim>\<open>undefined\<close>, the result \<open>Inr None\<close>.
\<close>

definition graph_invoke ::
  "nat \<Rightarrow> model \<Rightarrow> AgentState \<Rightarrow> (error + AgentState option) option" where
  "graph_invoke fuel callOpenRouter state =
     (case entry_points of
        [] \<Rightarrow> Some (Inr None)
      | n # ns \<Rightarrow> map_option (map_sum id Some) (graph_run fuel callOpenRouter n state))"

text \<open>One cycle: the three nodes in the order of the edges.\<close>

definition cycle :: "model \<Rightarrow> AgentState \<Rightarrow> error + AgentState" where
  "cycle callOpenRouter state =
     (case parse_input callOpenRouter state of
        Inl err \<Rightarrow> Inl err
      | Inr state1 \<Rightarrow>
          (case tool_executor state1 of
             Inl err \<Rightarrow> Inl err
           | Inr state2 \<Rightarrow> response_generator state2))"

section \<open>The request handler\<close>

text \<open>The state that the handler gives to \<^verbatim>\<open>graph.invoke\<close>.\<close>

definition initial_state :: "engine \<Rightarrow> string \<Rightarrow> AgentState" where
  "initial_state engine query =
     \<lparr>messages =
        [\<lparr>role = system, content = systemPrompt (tools_array engine)\<rparr>,
         \<lparr>role = user, content = query\<rparr>],
      tools = tools_array engine,
      current_step = 0,
      final_answer = None\<rparr>"

text \<open>\<^verbatim>\<open>result.final_answer ?? "No answer generated within step limit."\<close>\<close>

definition responseData :: "AgentState \<Rightarrow> string" where
  "responseData result =
     (case final_answer result of
        Some answer \<Rightarrow> answer
      | None \<Rightarrow> ''No answer generated within step limit.'')"

text \<open>
  The response to a POST whose body held the text \<open>query\<close>: status and the field of
  the JSON body (\<^verbatim>\<open>answer\<close> or \<^verbatim>\<open>error\<close>). \<^verbatim>\<open>err.message || String(err)\<close> falls back to
  the name of the error when the message is empty.
\<close>

datatype response = Answer_200 string | Error_500 string | Bad_Request_400

definition error_response :: "error \<Rightarrow> response" where
  "error_response err = Error_500 (if message err \<noteq> [] then message err else error_name err)"

text \<open>
  The call of \<^verbatim>\<open>graph.invoke\<close> and the reading of \<^verbatim>\<open>result.final_answer\<close> are inside
  \<^verbatim>\<open>try\<close>: an error of the run and the \<^verbatim>\<open>TypeError\<close> of reading \<^verbatim>\<open>final_answer\<close> from
  a result that is \<^verbatim>\<open>undefined\<close> both end in the response of status 500.
\<close>

definition serve_POST :: "nat \<Rightarrow> engine \<Rightarrow> model \<Rightarrow> string \<Rightarrow> response option" where
  "serve_POST fuel engine callOpenRouter query =
     (if query = [] then Some Bad_Request_400
      else
        (case graph_invoke fuel callOpenRouter (initial_state engine query) of
           None \<Rightarrow> None
         | Some (Inl err) \<Rightarrow> Some (error_response err)
         | Some (Inr None) \<Rightarrow> Some (error_response (cannot_read ''final_answer''))
         | Some (Inr (Some result)) \<Rightarrow> Some (Answer_200 (responseData result))))"

section \<open>Runs with no answer\<close>

text \<open>
  \<open>unanswered k\<close>: the next \<open>k\<close> cycles from a state all complete (no call of the model
  throws) and none of them leaves a final answer.
\<close>

fun unanswered :: "nat \<Rightarrow> model \<Rightarrow> AgentState \<Rightarrow> bool" where
  "unanswered 0 callOpenRouter state = True"
| "unanswered (Suc k) callOpenRouter state =
     (case cycle callOpenRouter state of
        Inl err \<Rightarrow> False
      | Inr state' \<Rightarrow> final_answer state' = None \<and> unanswered k callOpenRouter state')"

text \<open>The state with one observation appended to the transcript.\<close>

definition observed :: "AgentState \<Rightarrow> string \<Rightarrow> AgentState" where
  "observed state text =
     state\<lparr>messages := messages state @
             [\<lparr>role = system, content = ''Observation: '' @ text\<rparr>]\<rparr>"

text \<open>
  The configurations that a run from \<open>state0\<close> passes through: the node about to run
  and the state it is given.
\<close>

inductive reachable :: "model \<Rightarrow> AgentState \<Rightarrow> node \<Rightarrow> AgentState \<Rightarrow> bool"
  for callOpenRouter :: model and state0 :: AgentState
where
  start: "reachable callOpenRouter state0 Parse_input state0"
| step: "reachable callOpenRouter state0 n state \<Longrightarrow> n \<noteq> END \<Longrightarrow>
         node_step callOpenRouter n state = Inr (n', state') \<Longrightarrow>
         reachable callOpenRouter state0 n' state'"

text \<open>The place of a node in the cycle of the edges.\<close>

fun position :: "node \<Rightarrow> nat" where
  "position Parse_input = 0"
| "position Tool_executor = 1"
| "position Response_generator = 2"
| "position END = 3"

section \<open>Shapes of directives\<close>

text \<open>
  Two shapes of the text that follows \<^verbatim>\<open>Action:\<close> in a message: the first \<^verbatim>\<open>[\<close> of the
  text is closed at once (\<^verbatim>\<open>Action: Calculator[]\<close>), and the text starts with \<^verbatim>\<open>[\<close>
  (\<^verbatim>\<open>Action:[2+2]\<close>).
\<close>

definition empty_argument :: "string \<Rightarrow> bool" where
  "empty_argument r =
     (case dropWhile (\<lambda>c. c \<noteq> CHR ''['') r of
        _ # c # _ \<Rightarrow> c = CHR '']''
      | _ \<Rightarrow> False)"

definition empty_name :: "string \<Rightarrow> bool" where
  "empty_name r = (case r of c # _ \<Rightarrow> c = CHR ''['' | [] \<Rightarrow> False)"

section \<open>Engines, models and tools for the examples\<close>

text \<open>An engine that refuses every source text outside the arithmetic fragment.\<close>

definition refusing_engine :: engine where
  "refusing_engine src = Inl (JSError ''SyntaxError'' ''Unexpected token'')"

text \<open>A model that gives the same reply every time.\<close>

definition always :: "string \<Rightarrow> model" where
  "always reply ms = Inr reply"

text \<open>A tool whose invocation throws.\<close>

definition Failing :: Tool where
  "Failing =
     \<lparr>name = ''Failing'', description = ''Always fails.'',
      run = (\<lambda>input. Inl (JSError ''Error'' ''boom''))\<rparr>"

text \<open>A state whose transcript ends with the assistant message \<open>reply\<close>.\<close>

definition after_reply :: "Tool list \<Rightarrow> string \<Rightarrow> AgentState" where
  "after_reply ts reply =
     \<lparr>messages = [\<lparr>role = user, content = ''q''\<rparr>, \<lparr>role = assistant, content = reply\<rparr>],
      tools = ts, current_step = 0, final_answer = None\<rparr>"

text \<open>States after a reply that asks for an unknown tool, a failing tool, the Calculator.\<close>

definition weather_request :: AgentState where
  "weather_request = after_reply (tools_array refusing_engine) ''Action: Weather[NYC]''"

definition failing_request :: AgentState where
  "failing_request = after_reply [Failing] ''Action: failing[x]''"

definition calculator_request :: AgentState where
  "calculator_request =
     after_reply (tools_array refusing_engine) ''Thought: compute. Action: Calculator[ 2+2 ]''"

text \<open>
  A reply whose tool name holds the word \<^verbatim>\<open>Answer:\<close>, and the request for an unknown
  tool in the last cycle that the step limit allows.
\<close>

definition answer_named_tool :: AgentState where
  "answer_named_tool = after_reply (tools_array refusing_engine) ''Action: Answer: x[y]''"

definition late_weather_request :: AgentState where
  "late_weather_request = weather_request\<lparr>current_step := 9\<rparr>"

text \<open>A reply with two actions, one with none, and two with the shapes of C10.\<close>

definition two_actions :: AgentState where
  "two_actions =
     after_reply (tools_array refusing_engine)
       ''Action: Weather[NYC] and then Action: Calculator[1+1]''"

definition no_action :: AgentState where
  "no_action = after_reply (tools_array refusing_engine) ''Thought: nothing to do yet.''"

definition empty_directives :: AgentState where
  "empty_directives =
     after_reply (tools_array refusing_engine) ''Action: Calculator[] Action:[2+2]''"

definition blank_name :: AgentState where
  "blank_name = after_reply (tools_array refusing_engine) ''Action: [2+2]''"

text \<open>A property of every non-empty suffix of a text, that is, at every position.\<close>

fun all_suffixes :: "(string \<Rightarrow> bool) \<Rightarrow> string \<Rightarrow> bool" where
  "all_suffixes P [] = True"
| "all_suffixes P (c # cs) = (P (c # cs) \<and> all_suffixes P cs)"

text \<open>States and replies for the examples of the run.\<close>

definition weather_query :: AgentState where
  "weather_query = initial_state refusing_engine ''What is the weather in NYC?''"

definition late_query :: AgentState where
  "late_query = (initial_state refusing_engine ''What is 2+2?'')\<lparr>current_step := 9\<rparr>"

definition answer_and_action :: string where
  "answer_and_action = ''Action: Calculator[2+2] Answer: 4''"

definition answer_not_last :: string where
  "answer_not_last = ''Answer: 4'' @ [newline] @ ''Thought: done''"

section \<open>Facts about the matcher\<close>

lemma backtrack_None_iff:
  "backtrack f lo k = None \<longleftrightarrow> (\<forall>j. lo \<le> j \<and> j \<le> k \<longrightarrow> f j = None)"
proof (induction k)
  case 0
  then show ?case by auto
next
  case (Suc k)
  show ?case
  proof (cases "Suc k < lo")
    case True
    then show ?thesis by auto
  next
    case False
    show ?thesis
    proof (cases "f (Suc k)")
      case None
      have "(\<forall>j. lo \<le> j \<and> j \<le> Suc k \<longrightarrow> f j = None) \<longleftrightarrow> (\<forall>j. lo \<le> j \<and> j \<le> k \<longrightarrow> f j = None)"
        using None le_Suc_eq by auto
      with Suc None False show ?thesis by simp
    next
      case (Some r)
      have neg: "\<not> (\<forall>j. lo \<le> j \<and> j \<le> Suc k \<longrightarrow> f j = None)"
      proof
        assume "\<forall>j. lo \<le> j \<and> j \<le> Suc k \<longrightarrow> f j = None"
        then have "lo \<le> Suc k \<and> Suc k \<le> Suc k \<longrightarrow> f (Suc k) = None" by (rule spec)
        with Some False show False by simp
      qed
      have "backtrack f lo (Suc k) \<noteq> None" using Some False by simp
      with neg show ?thesis by blast
    qed
  qed
qed

lemma backtrack_SomeD:
  "backtrack f lo k = Some r \<Longrightarrow>
     \<exists>j. lo \<le> j \<and> j \<le> k \<and> f j = Some r \<and> (\<forall>i. j < i \<and> i \<le> k \<longrightarrow> f i = None)"
proof (induction k)
  case 0
  then show ?case by (auto split: if_splits)
next
  case (Suc k)
  show ?case
  proof (cases "f (Suc k)")
    case None
    with Suc.prems have "backtrack f lo k = Some r" and "\<not> Suc k < lo"
      by (auto split: if_splits)
    with Suc.IH obtain j where j: "lo \<le> j" "j \<le> k" "f j = Some r"
      "\<forall>i. j < i \<and> i \<le> k \<longrightarrow> f i = None" by blast
    have "\<forall>i. j < i \<and> i \<le> Suc k \<longrightarrow> f i = None"
      using j(4) None le_Suc_eq by auto
    with j show ?thesis by (intro exI[of _ j]) auto
  next
    case (Some r')
    with Suc.prems have "r' = r" and "\<not> Suc k < lo" by (auto split: if_splits)
    with Some show ?thesis by (intro exI[of _ "Suc k"]) auto
  qed
qed

lemma backtrack_top:
  "lo \<le> k \<Longrightarrow> f k = Some r \<Longrightarrow> backtrack f lo k = Some r"
  by (cases k) auto

lemma search_None_iff:
  "search re i s = None \<longleftrightarrow> (\<forall>k\<le>length s. matches re (i + k) (drop k s) = None)"
proof (induction s arbitrary: i)
  case Nil
  then show ?case by simp
next
  case (Cons c cs)
  have "(\<forall>k\<le>length (c # cs). matches re (i + k) (drop k (c # cs)) = None) \<longleftrightarrow>
        matches re i (c # cs) = None \<and> (\<forall>k\<le>length cs. matches re (Suc i + k) (drop k cs) = None)"
  proof
    assume a: "\<forall>k\<le>length (c # cs). matches re (i + k) (drop k (c # cs)) = None"
    from a[rule_format, of 0] have "matches re i (c # cs) = None" by simp
    moreover have "\<forall>k\<le>length cs. matches re (Suc i + k) (drop k cs) = None"
    proof (intro allI impI)
      fix k assume "k \<le> length cs"
      with a[rule_format, of "Suc k"] show "matches re (Suc i + k) (drop k cs) = None" by simp
    qed
    ultimately show "matches re i (c # cs) = None \<and>
        (\<forall>k\<le>length cs. matches re (Suc i + k) (drop k cs) = None)" by simp
  next
    assume b: "matches re i (c # cs) = None \<and>
        (\<forall>k\<le>length cs. matches re (Suc i + k) (drop k cs) = None)"
    show "\<forall>k\<le>length (c # cs). matches re (i + k) (drop k (c # cs)) = None"
    proof (intro allI impI)
      fix k assume k: "k \<le> length (c # cs)"
      show "matches re (i + k) (drop k (c # cs)) = None"
      proof (cases k)
        case 0
        with b show ?thesis by simp
      next
        case (Suc k')
        with k b show ?thesis by simp
      qed
    qed
  qed
  with Cons[of "Suc i"] show ?case by (simp split: option.splits)
qed

lemma search_first:
  "k \<le> length s \<Longrightarrow> matches re (i + k) (drop k s) = Some g \<Longrightarrow>
   (\<forall>j<k. matches re (i + j) (drop j s) = None) \<Longrightarrow> search re i s = Some g"
proof (induction s arbitrary: i k)
  case Nil
  then show ?case by simp
next
  case (Cons c cs)
  show ?case
  proof (cases k)
    case 0
    with Cons.prems show ?thesis by simp
  next
    case (Suc k')
    with Cons.prems have none0: "matches re i (c # cs) = None" by force
    have "search re (Suc i) cs = Some g"
    proof (rule Cons.IH[of k'])
      show "k' \<le> length cs" using Cons.prems Suc by simp
      show "matches re (Suc i + k') (drop k' cs) = Some g" using Cons.prems Suc by simp
      show "\<forall>j<k'. matches re (Suc i + j) (drop j cs) = None"
      proof (intro allI impI)
        fix j assume "j < k'"
        with Cons.prems(3)[rule_format, of "Suc j"] Suc
        show "matches re (Suc i + j) (drop j cs) = None" by simp
      qed
    qed
    with none0 show ?thesis by simp
  qed
qed

lemma search_SomeD:
  "search re i s = Some g \<Longrightarrow>
     \<exists>k\<le>length s. matches re (i + k) (drop k s) = Some g \<and>
       (\<forall>j<k. matches re (i + j) (drop j s) = None)"
proof (induction s arbitrary: i)
  case Nil
  then show ?case by simp
next
  case (Cons c cs)
  show ?case
  proof (cases "matches re i (c # cs)")
    case (Some g')
    with Cons.prems have "g' = g" by simp
    with Some show ?thesis by (intro exI[of _ 0]) simp
  next
    case None
    with Cons.prems have "search re (Suc i) cs = Some g" by simp
    from Cons.IH[OF this] obtain k where k: "k \<le> length cs"
      "matches re (Suc i + k) (drop k cs) = Some g"
      "\<forall>j<k. matches re (Suc i + j) (drop j cs) = None" by blast
    have "\<forall>j<Suc k. matches re (i + j) (drop j (c # cs)) = None"
    proof (intro allI impI)
      fix j assume j: "j < Suc k"
      show "matches re (i + j) (drop j (c # cs)) = None"
      proof (cases j)
        case 0
        with None show ?thesis by simp
      next
        case (Suc j')
        with j k(3) show ?thesis by simp
      qed
    qed
    with k show ?thesis by (intro exI[of _ "Suc k"]) simp
  qed
qed

text \<open>The filter of the Calculator accepts the non-empty texts of allowed characters.\<close>

lemma takeWhile_length_less:
  "\<exists>c\<in>set s. \<not> p c \<Longrightarrow> length (takeWhile p s) < length s"
  by (induction s) auto

lemma expression_re_at_0:
  "\<exists>c\<in>set s. \<not> expression_char c \<Longrightarrow> matches expression_re 0 s = None"
proof -
  assume bad: "\<exists>c\<in>set s. \<not> expression_char c"
  then have short: "length (takeWhile expression_char s) < length s"
    by (rule takeWhile_length_less)
  have "backtrack (\<lambda>k. matches [Eol] (0 + k) (drop k s)) 1
          (length (takeWhile expression_char s)) = None"
    unfolding backtrack_None_iff using short by auto
  then show ?thesis by (simp add: expression_re_def)
qed

lemma expression_re_later: "matches expression_re (Suc i) s = None"
  by (simp add: expression_re_def)

lemma expression_test_rejects:
  assumes "\<exists>c\<in>set input. \<not> expression_char c"
  shows "\<not> regex_test expression_re input"
proof -
  have "\<forall>k\<le>length input. matches expression_re (0 + k) (drop k input) = None"
  proof (intro allI impI)
    fix k assume "k \<le> length input"
    show "matches expression_re (0 + k) (drop k input) = None"
    proof (cases k)
      case 0
      with assms show ?thesis by (simp add: expression_re_at_0)
    next
      case (Suc k')
      then show ?thesis by (simp add: expression_re_later)
    qed
  qed
  then have "search expression_re 0 input = None"
    by (simp only: search_None_iff)
  then show ?thesis by (simp add: regex_test_def regex_match_def)
qed

text \<open>What a match of the action pattern at one position says about the text.\<close>

lemma take_in_takeWhile:
  "k \<le> length (takeWhile p s) \<Longrightarrow> \<forall>c\<in>set (take k s). p c"
proof (induction s arbitrary: k)
  case Nil
  then show ?case by simp
next
  case (Cons x xs)
  show ?case
  proof (cases k)
    case 0
    then show ?thesis by simp
  next
    case (Suc k')
    with Cons.prems have px: "p x" by (auto split: if_splits)
    with Cons.prems Suc have "k' \<le> length (takeWhile p xs)" by simp
    from Cons.IH[OF this] px Suc show ?thesis by simp
  qed
qed

lemma is_space_not_bracket: "is_space c \<Longrightarrow> c \<noteq> CHR ''[''"
  by (auto simp: is_space_def)

lemma action_tail_shape:
  assumes "matches [Rep is_space 0, Cap (\<lambda>c. c \<noteq> CHR ''['') 1, Lit ''['',
                    Cap (\<lambda>c. c \<noteq> CHR '']'') 1, Lit '']''] i r = Some g"
  shows "\<not> empty_name r \<and> \<not> empty_argument r \<and> (\<exists>a b. g = [a, b])"
proof -
  let ?nb = "\<lambda>c. c \<noteq> CHR ''[''" and ?nc = "\<lambda>c. c \<noteq> CHR '']''"
  from assms have "backtrack
      (\<lambda>k. matches [Cap ?nb 1, Lit ''['', Cap ?nc 1, Lit '']''] (i + k) (drop k r))
      0 (length (takeWhile is_space r)) = Some g"
    by simp
  from backtrack_SomeD[OF this] obtain k where
    k: "k \<le> length (takeWhile is_space r)" and
    m1: "matches [Cap ?nb 1, Lit ''['', Cap ?nc 1, Lit '']''] (i + k) (drop k r) = Some g"
    by blast
  define t where "t = drop k r"
  from m1 have "backtrack
      (\<lambda>k1. map_option (Cons (take k1 t))
          (matches [Lit ''['', Cap ?nc 1, Lit '']''] (i + k + k1) (drop k1 t)))
      1 (length (takeWhile ?nb t)) = Some g"
    by (simp add: t_def)
  from backtrack_SomeD[OF this] obtain k1 where
    k1: "1 \<le> k1" "k1 \<le> length (takeWhile ?nb t)" and
    m2: "map_option (Cons (take k1 t))
          (matches [Lit ''['', Cap ?nc 1, Lit '']''] (i + k + k1) (drop k1 t)) = Some g"
    by blast
  from m2 obtain g' where g: "g = take k1 t # g'" and
    m3: "matches [Lit ''['', Cap ?nc 1, Lit '']''] (i + k + k1) (drop k1 t) = Some g'"
    by auto
  from m3 have pre: "prefix ''['' (drop k1 t)"
    by (auto split: if_splits)
  then obtain u where u: "drop k1 t = CHR ''['' # u"
    by (auto simp: prefix_def)
  from m3 pre u have "backtrack
      (\<lambda>k2. map_option (Cons (take k2 u))
          (matches [Lit '']''] (i + k + k1 + 1 + k2) (drop k2 u)))
      1 (length (takeWhile ?nc u)) = Some g'"
    by (simp add: add.assoc)
  from backtrack_SomeD[OF this] obtain k2 where
    k2: "1 \<le> k2" "k2 \<le> length (takeWhile ?nc u)" and
    m4: "map_option (Cons (take k2 u))
          (matches [Lit '']''] (i + k + k1 + 1 + k2) (drop k2 u)) = Some g'"
    by blast
  from m4 obtain g'' where g': "g' = take k2 u # g''" and
    m5: "matches [Lit '']''] (i + k + k1 + 1 + k2) (drop k2 u) = Some g''"
    by auto
  from m5 have "g'' = []" by (auto split: if_splits)
  with g g' have two: "\<exists>a b. g = [a, b]" by simp
  have r_split: "r = (take k r @ take k1 t) @ CHR ''['' # u"
    using u by (metis append_take_drop_id append.assoc t_def)
  have "\<forall>c\<in>set (take k r). is_space c"
    using k by (rule take_in_takeWhile)
  then have sp: "\<forall>c\<in>set (take k r). ?nb c"
    using is_space_not_bracket by blast
  have nb: "\<forall>c\<in>set (take k1 t). ?nb c"
    using k1(2) by (rule take_in_takeWhile)
  from sp nb have all_nb: "\<forall>c\<in>set (take k r @ take k1 t). ?nb c" by auto
  have "length (takeWhile ?nb t) \<le> length t" by (rule length_takeWhile_le)
  with k1 have "take k1 t \<noteq> []" by auto
  then have nonempty: "take k r @ take k1 t \<noteq> []" by simp
  then obtain x xs where x: "take k r @ take k1 t = x # xs"
    by (cases "take k r @ take k1 t") auto
  with all_nb have x_nb: "x \<noteq> CHR ''[''" by auto
  from r_split x have "r = x # (xs @ CHR ''['' # u)" by simp
  with x_nb have not_name: "\<not> empty_name r"
    by (simp add: empty_name_def)
  have dw: "dropWhile ?nb r = CHR ''['' # u"
  proof -
    have "dropWhile ?nb ((take k r @ take k1 t) @ CHR ''['' # u) = dropWhile ?nb (CHR ''['' # u)"
      using all_nb by (intro dropWhile_append2) auto
    with r_split show ?thesis by simp
  qed
  have "length (takeWhile ?nc u) \<le> length u" by (rule length_takeWhile_le)
  with k2 have "u \<noteq> []" by auto
  then obtain y ys where y: "u = y # ys" by (cases u) auto
  have "\<forall>c\<in>set (take k2 u). ?nc c"
    using k2(2) by (rule take_in_takeWhile)
  with y k2(1) have "y \<noteq> CHR '']''" by (cases k2) auto
  with dw y have not_arg: "\<not> empty_argument r"
    by (simp add: empty_argument_def)
  from not_name not_arg two show ?thesis by simp
qed

lemma action_match_shape:
  assumes "matches action_re i s = Some g"
  shows "prefix ''Action:'' s \<and> \<not> empty_name (drop 7 s) \<and> \<not> empty_argument (drop 7 s) \<and>
         (\<exists>a b. g = [a, b])"
proof -
  let ?tail = "[Rep is_space 0, Cap (\<lambda>c. c \<noteq> CHR ''['') 1, Lit ''['',
                Cap (\<lambda>c. c \<noteq> CHR '']'') 1, Lit '']'']"
  have unfold: "matches action_re i s =
      (if prefix ''Action:'' s
       then matches ?tail (i + length ''Action:'') (drop (length ''Action:'') s) else None)"
    by (simp only: action_re_def matches.simps)
  have p: "prefix ''Action:'' s"
  proof (rule ccontr)
    assume "\<not> prefix ''Action:'' s"
    with unfold have "matches action_re i s = None" by (simp only: if_False)
    with assms show False by simp
  qed
  with unfold assms have
    "matches ?tail (i + length ''Action:'') (drop (length ''Action:'') s) = Some g"
    by (simp only: if_True)
  from action_tail_shape[OF this] have sh:
    "\<not> empty_name (drop (length ''Action:'') s) \<and>
     \<not> empty_argument (drop (length ''Action:'') s) \<and> (\<exists>a b. g = [a, b])" .
  have seven: "length ''Action:'' = 7" by simp
  from sh p show ?thesis unfolding seven by blast
qed

lemma action_match_two_groups:
  "regex_match action_re s = Some g \<Longrightarrow> \<exists>a b. g = [a, b]"
proof -
  assume "regex_match action_re s = Some g"
  then have "search action_re 0 s = Some g" by (simp add: regex_match_def)
  from search_SomeD[OF this] obtain k where "matches action_re (0 + k) (drop k s) = Some g"
    by blast
  from action_match_shape[OF this] show ?thesis by simp
qed

lemma find_tool_Some:
  "find_tool ts n = Some t \<Longrightarrow> t \<in> set ts \<and> toLowerCase (name t) = toLowerCase (trim n)"
  by (auto simp: find_tool_def find_Some_iff)

lemma all_suffixes_iff:
  "all_suffixes P s \<longleftrightarrow> (\<forall>i<length s. P (drop i s))"
proof (induction s)
  case Nil
  then show ?case by simp
next
  case (Cons c cs)
  have "(\<forall>i<length (c # cs). P (drop i (c # cs))) \<longleftrightarrow>
        P (c # cs) \<and> (\<forall>i<length cs. P (drop i cs))"
  proof
    assume a: "\<forall>i<length (c # cs). P (drop i (c # cs))"
    from a[rule_format, of 0] have "P (c # cs)" by simp
    moreover have "\<forall>i<length cs. P (drop i cs)"
    proof (intro allI impI)
      fix i assume "i < length cs"
      with a[rule_format, of "Suc i"] show "P (drop i cs)" by simp
    qed
    ultimately show "P (c # cs) \<and> (\<forall>i<length cs. P (drop i cs))" by simp
  next
    assume b: "P (c # cs) \<and> (\<forall>i<length cs. P (drop i cs))"
    show "\<forall>i<length (c # cs). P (drop i (c # cs))"
    proof (intro allI impI)
      fix i assume i: "i < length (c # cs)"
      show "P (drop i (c # cs))"
      proof (cases i)
        case 0
        with b show ?thesis by simp
      next
        case (Suc i')
        with i b show ?thesis by simp
      qed
    qed
  qed
  with Cons show ?case by simp
qed

text \<open>What a match of the answer pattern says about the text.\<close>

lemma answer_tail_shape:
  assumes "matches [Rep is_space 0, Cap (\<lambda>c. \<not> is_line_terminator c) 0, Eol] i r = Some g"
  shows "\<exists>w. r = w @ hd g \<and> g = [hd g] \<and> (\<forall>c\<in>set w. is_space c) \<and>
             (\<forall>c\<in>set (hd g). \<not> is_line_terminator c)"
proof -
  let ?nl = "\<lambda>c. \<not> is_line_terminator c"
  from assms have "backtrack (\<lambda>k. matches [Cap ?nl 0, Eol] (i + k) (drop k r))
      0 (length (takeWhile is_space r)) = Some g"
    by simp
  from backtrack_SomeD[OF this] obtain k where
    k: "k \<le> length (takeWhile is_space r)" and
    m1: "matches [Cap ?nl 0, Eol] (i + k) (drop k r) = Some g"
    by blast
  define t where "t = drop k r"
  from m1 have "backtrack
      (\<lambda>k1. map_option (Cons (take k1 t)) (matches [Eol] (i + k + k1) (drop k1 t)))
      0 (length (takeWhile ?nl t)) = Some g"
    by (simp add: t_def)
  from backtrack_SomeD[OF this] obtain k1 where
    k1: "k1 \<le> length (takeWhile ?nl t)" and
    m2: "map_option (Cons (take k1 t)) (matches [Eol] (i + k + k1) (drop k1 t)) = Some g"
    by blast
  from m2 obtain g' where g: "g = take k1 t # g'" and
    m3: "matches [Eol] (i + k + k1) (drop k1 t) = Some g'"
    by auto
  from m3 have e: "drop k1 t = []" and g': "g' = []"
    by (auto split: if_splits)
  from e have whole: "take k1 t = t" by simp
  with g g' have gt: "g = [t]" by simp
  have "\<forall>c\<in>set (take k1 t). ?nl c"
    using k1 by (rule take_in_takeWhile)
  with whole have nl: "\<forall>c\<in>set t. ?nl c" by simp
  have sp: "\<forall>c\<in>set (take k r). is_space c"
    using k by (rule take_in_takeWhile)
  have "r = take k r @ t" by (simp add: t_def)
  with gt nl sp show ?thesis by (intro exI[of _ "take k r"]) simp
qed

lemma answer_match_shape:
  assumes "regex_match answer_re s = Some g"
  shows "\<exists>before w x. s = before @ ''Answer:'' @ w @ x \<and> g = [x] \<and>
           (\<forall>c\<in>set w. is_space c) \<and> (\<forall>c\<in>set x. \<not> is_line_terminator c)"
proof -
  let ?tail = "[Rep is_space 0, Cap (\<lambda>c. \<not> is_line_terminator c) 0, Eol]"
  from assms have "search answer_re 0 s = Some g" by (simp add: regex_match_def)
  from search_SomeD[OF this] obtain k where
    m: "matches answer_re (0 + k) (drop k s) = Some g"
    by blast
  have unfold: "matches answer_re (0 + k) (drop k s) =
      (if prefix ''Answer:'' (drop k s)
       then matches ?tail (0 + k + length ''Answer:'') (drop (length ''Answer:'') (drop k s))
       else None)"
    by (simp only: answer_re_def matches.simps)
  have p: "prefix ''Answer:'' (drop k s)"
  proof (rule ccontr)
    assume "\<not> prefix ''Answer:'' (drop k s)"
    with unfold have "matches answer_re (0 + k) (drop k s) = None" by (simp only: if_False)
    with m show False by simp
  qed
  with unfold m have
    "matches ?tail (0 + k + length ''Answer:'') (drop (length ''Answer:'') (drop k s)) = Some g"
    by (simp only: if_True)
  from answer_tail_shape[OF this] obtain w where
    w: "drop (length ''Answer:'') (drop k s) = w @ hd g" "g = [hd g]"
       "\<forall>c\<in>set w. is_space c" "\<forall>c\<in>set (hd g). \<not> is_line_terminator c"
    by blast
  from p obtain rest where rest: "drop k s = ''Answer:'' @ rest"
    by (auto simp: prefix_def)
  then have "drop (length ''Answer:'') (drop k s) = rest" by simp
  with w(1) have "rest = w @ hd g" by simp
  with rest have "drop k s = ''Answer:'' @ w @ hd g" by simp
  then have "s = take k s @ ''Answer:'' @ w @ hd g"
    by (metis append_take_drop_id)
  with w(2,3,4) show ?thesis by blast
qed

section \<open>Facts about the nodes and the run\<close>

lemma parse_input_fields:
  "parse_input call s = Inr s' \<Longrightarrow>
     current_step s' = current_step s \<and> final_answer s' = final_answer s \<and>
     tools s' = tools s \<and>
     (\<exists>reply. call (messages s) = Inr reply \<and>
        messages s' = messages s @ [\<lparr>role = assistant, content = reply\<rparr>])"
  by (auto simp: parse_input_def split: sum.splits)

lemma tool_executor_fields:
  "tool_executor s = Inr s' \<Longrightarrow>
     current_step s' = current_step s \<and> final_answer s' = final_answer s \<and>
     tools s' = tools s \<and>
     (messages s' = messages s \<or>
      (\<exists>obs. messages s' = messages s @ [\<lparr>role = system, content = ''Observation: '' @ obs\<rparr>]))"
  by (auto simp: tool_executor_def split: if_splits option.splits list.splits)

lemma response_generator_fields:
  "response_generator s = Inr s' \<Longrightarrow>
     messages s' = messages s \<and> tools s' = tools s \<and>
     ((\<exists>a. final_answer s' = Some a \<and> current_step s' = current_step s) \<or>
      (final_answer s' = final_answer s \<and> current_step s' = current_step s + 1))"
  by (auto simp: response_generator_def split: if_splits option.splits list.splits)

lemma cycle_fields:
  assumes "cycle call s = Inr s'"
  shows "\<exists>s1 s2. parse_input call s = Inr s1 \<and> tool_executor s1 = Inr s2 \<and>
           response_generator s2 = Inr s'"
  using assms by (auto simp: cycle_def split: sum.splits)

lemma graph_run_END: "graph_run fuel call END s = Some (Inr s)"
  by (cases fuel) simp_all

lemma visited_END: "visited fuel call END s = []"
  by (cases fuel) simp_all

lemma graph_run_cycle:
  assumes "cycle call s = Inr s'"
  shows "graph_run (Suc (Suc (Suc fuel))) call Parse_input s =
         graph_run fuel call (conditional_edge s') s'"
proof -
  from cycle_fields[OF assms] obtain s1 s2 where
    "parse_input call s = Inr s1" "tool_executor s1 = Inr s2" "response_generator s2 = Inr s'"
    by blast
  then show ?thesis by simp
qed

lemma visited_cycle:
  assumes "cycle call s = Inr s'"
  shows "visited (Suc (Suc (Suc fuel))) call Parse_input s =
         [Parse_input, Tool_executor, Response_generator] @
         visited fuel call (conditional_edge s') s'"
proof -
  from cycle_fields[OF assms] obtain s1 s2 where
    "parse_input call s = Inr s1" "tool_executor s1 = Inr s2" "response_generator s2 = Inr s'"
    by blast
  then show ?thesis by simp
qed

lemma cycle_no_answer_step:
  assumes "cycle call s = Inr s'" and "final_answer s = None" and "final_answer s' = None"
  shows "current_step s' = current_step s + 1"
proof -
  from cycle_fields[OF assms(1)] obtain s1 s2 where
    p: "parse_input call s = Inr s1" and t: "tool_executor s1 = Inr s2" and
    r: "response_generator s2 = Inr s'"
    by blast
  from parse_input_fields[OF p] tool_executor_fields[OF t]
  have "current_step s2 = current_step s" "final_answer s2 = final_answer s" by simp_all
  with response_generator_fields[OF r] assms(2,3) show ?thesis by auto
qed

lemma unanswered_run:
  "unanswered k call s \<Longrightarrow> final_answer s = None \<Longrightarrow> current_step s + int k = 10 \<Longrightarrow>
   0 < k \<Longrightarrow>
   \<exists>s'. graph_run (3 * k + extra) call Parse_input s = Some (Inr s') \<and>
        final_answer s' = None \<and> current_step s' = 10"
proof (induction k arbitrary: s)
  case 0
  then show ?case by simp
next
  case (Suc k)
  from Suc.prems(1) obtain s1 where
    c: "cycle call s = Inr s1" and f1: "final_answer s1 = None" and u: "unanswered k call s1"
    by (auto split: sum.splits)
  from cycle_no_answer_step[OF c Suc.prems(2) f1]
  have st: "current_step s1 = current_step s + 1" .
  have fuel: "3 * Suc k + extra = Suc (Suc (Suc (3 * k + extra)))" by simp
  show ?case
  proof (cases k)
    case 0
    with st Suc.prems(3) have "current_step s1 = 10" by simp
    with f1 have "conditional_edge s1 = END"
      by (simp add: conditional_edge_def truthy_def)
    have "graph_run (3 * Suc k + extra) call Parse_input s =
          graph_run (3 * k + extra) call (conditional_edge s1) s1"
      unfolding fuel by (rule graph_run_cycle[OF c])
    with \<open>conditional_edge s1 = END\<close>
    have "graph_run (3 * Suc k + extra) call Parse_input s = Some (Inr s1)"
      by (simp only: graph_run_END)
    with f1 \<open>current_step s1 = 10\<close> show ?thesis by blast
  next
    case (Suc k')
    with st Suc.prems(3) have lt: "current_step s1 < 10" and
      sum: "current_step s1 + int k = 10" by simp_all
    with f1 have "conditional_edge s1 = Parse_input"
      by (simp add: conditional_edge_def truthy_def)
    have "graph_run (3 * Suc k + extra) call Parse_input s =
          graph_run (3 * k + extra) call (conditional_edge s1) s1"
      unfolding fuel by (rule graph_run_cycle[OF c])
    with \<open>conditional_edge s1 = Parse_input\<close>
    have eq: "graph_run (3 * Suc k + extra) call Parse_input s =
          graph_run (3 * k + extra) call Parse_input s1"
      by (simp only:)
    from Suc have "0 < k" by simp
    from Suc.IH[OF u f1 sum this] eq show ?thesis by simp
  qed
qed

lemma node_step_position:
  "node_step call n s = Inr (n', s') \<Longrightarrow> n \<noteq> END \<Longrightarrow> n' \<noteq> END \<Longrightarrow>
     position n' = (position n + 1) mod 3"
  by (cases n) (auto simp: conditional_edge_def split: sum.splits if_splits)

lemma visited_order:
  "n \<noteq> END \<Longrightarrow> k < length (visited fuel call n s) \<Longrightarrow>
     visited fuel call n s ! k =
       [Parse_input, Tool_executor, Response_generator] ! ((position n + k) mod 3)"
proof (induction fuel arbitrary: n s k)
  case 0
  then show ?case by simp
next
  case (Suc fuel)
  show ?case
  proof (cases k)
    case 0
    with Suc.prems(1) show ?thesis by (cases n) simp_all
  next
    case (Suc k')
    show ?thesis
    proof (cases "node_step call n s")
      case (Inl e)
      with Suc.prems \<open>k = Suc k'\<close> show ?thesis by simp
    next
      case (Inr p)
      obtain n' s' where p: "p = (n', s')" by (cases p)
      with Inr Suc.prems(1) have vis: "visited (Suc fuel) call n s = n # visited fuel call n' s'"
        by simp
      with Suc.prems(2) \<open>k = Suc k'\<close> have k': "k' < length (visited fuel call n' s')"
        by simp
      then have n': "n' \<noteq> END" by (auto simp: visited_END)
      from node_step_position[OF _ Suc.prems(1) n'] Inr p
      have pos: "position n' = (position n + 1) mod 3" by simp
      from Suc.IH[OF n' k'] have "visited fuel call n' s' ! k' =
          [Parse_input, Tool_executor, Response_generator] ! ((position n' + k') mod 3)" .
      moreover have "(position n' + k') mod 3 = (position n + k) mod 3"
        unfolding pos \<open>k = Suc k'\<close> by (simp add: mod_add_left_eq)
      ultimately show ?thesis using vis \<open>k = Suc k'\<close> by simp
    qed
  qed
qed

lemma node_step_current_step:
  "node_step call n s = Inr (n', s') \<Longrightarrow>
     current_step s \<le> current_step s' \<and> current_step s' \<le> current_step s + 1"
proof (cases n)
  case Parse_input
  assume "node_step call n s = Inr (n', s')"
  with Parse_input have "parse_input call s = Inr s'" by (auto split: sum.splits)
  from parse_input_fields[OF this] show ?thesis by simp
next
  case Tool_executor
  assume "node_step call n s = Inr (n', s')"
  with Tool_executor have "tool_executor s = Inr s'" by (auto split: sum.splits)
  from tool_executor_fields[OF this] show ?thesis by simp
next
  case Response_generator
  assume "node_step call n s = Inr (n', s')"
  with Response_generator have "response_generator s = Inr s'" by (auto split: sum.splits)
  from response_generator_fields[OF this] show ?thesis by auto
next
  case END
  assume "node_step call n s = Inr (n', s')"
  with END show ?thesis by simp
qed

lemma reachable_invariant:
  "reachable call s0 n s \<Longrightarrow> current_step s0 = 0 \<Longrightarrow>
     0 \<le> current_step s \<and> current_step s \<le> 10 \<and> (n \<noteq> END \<longrightarrow> current_step s < 10)"
proof (induction rule: reachable.induct)
  case start
  then show ?case by simp
next
  case (step n state n' state')
  from step.IH[OF step.prems] step.hyps(2)
  have inv: "0 \<le> current_step state" "current_step state < 10" by simp_all
  from node_step_current_step[OF step.hyps(3)]
  have mono: "current_step state \<le> current_step state'"
    "current_step state' \<le> current_step state + 1" by simp_all
  have "n' \<noteq> END \<longrightarrow> current_step state' < 10"
  proof (cases n)
    case Parse_input
    with step.hyps(3) have "parse_input call state = Inr state'" by (auto split: sum.splits)
    from parse_input_fields[OF this] inv show ?thesis by simp
  next
    case Tool_executor
    with step.hyps(3) have "tool_executor state = Inr state'" by (auto split: sum.splits)
    from tool_executor_fields[OF this] inv show ?thesis by simp
  next
    case Response_generator
    with step.hyps(3) have "n' = conditional_edge state'" by (auto split: sum.splits)
    then show ?thesis by (auto simp: conditional_edge_def split: if_splits)
  next
    case END
    with step.hyps(2) show ?thesis by simp
  qed
  with inv mono show ?case by simp
qed

section \<open>Facts about the tool dispatch and the answer check\<close>

lemma find_tool_first:
  "ts = before @ tool # rest \<Longrightarrow>
   \<forall>t\<in>set before. toLowerCase (name t) \<noteq> toLowerCase (trim n) \<Longrightarrow>
   toLowerCase (name tool) = toLowerCase (trim n) \<Longrightarrow>
   find_tool ts n = Some tool"
  by (induction before arbitrary: ts) (auto simp: find_tool_def)

lemma find_tool_exists:
  assumes "\<exists>t\<in>set ts. toLowerCase (name t) = toLowerCase (trim n)"
  shows "\<exists>before tool rest. ts = before @ tool # rest \<and>
     (\<forall>t\<in>set before. toLowerCase (name t) \<noteq> toLowerCase (trim n)) \<and>
     toLowerCase (name tool) = toLowerCase (trim n) \<and>
     find_tool ts n = Some tool"
proof -
  from split_list_first_prop[OF assms] obtain before tool rest where
    ts: "ts = before @ tool # rest" and
    m: "toLowerCase (name tool) = toLowerCase (trim n)" and
    b: "\<forall>t\<in>set before. toLowerCase (name t) \<noteq> toLowerCase (trim n)"
    by blast
  from find_tool_first[OF ts b m] ts m b show ?thesis by blast
qed

lemma response_generator_observed:
  assumes "regex_match answer_re (''Observation: '' @ obs) = None"
  shows "response_generator (observed state obs) =
           Inr ((observed state obs)\<lparr>current_step := current_step state + 1\<rparr>)"
  using assms by (simp add: response_generator_def observed_def)

lemma conditional_edge_continue:
  "\<not> truthy (final_answer state) \<Longrightarrow> current_step state + 1 < 10 \<Longrightarrow>
   conditional_edge ((observed state obs)\<lparr>current_step := current_step state + 1\<rparr>) =
     Parse_input"
  by (simp add: conditional_edge_def observed_def)

text \<open>With no entry point every POST that carries a query gets the same response.\<close>

lemma serve_POST_without_entry_point:
  "query \<noteq> [] \<Longrightarrow>
   serve_POST fuel engine callOpenRouter query =
     Some (Error_500 (''Cannot read properties of undefined (reading '' @ [CHR 0x27] @
       ''final_answer'' @ [CHR 0x27] @ '')''))"
  by (simp add: serve_POST_def graph_invoke_def entry_points_def error_response_def
      cannot_read_def)
section \<open>The claims\<close>

text \<open>
  C1 (as the code has it). When the reply of the model holds no action, so that it is
  the last message at the answer check, and the answer pattern matches it with group
  \<open>x\<close> (the text after \<^verbatim>\<open>Answer:\<close> and whitespace, up to the end of the message and
  without a line break) and \<open>x\<close> trimmed is not empty, then the run ends in this cycle
  with \<^verbatim>\<open>final_answer\<close> equal to \<open>x\<close> trimmed, whatever the step counter is: the nodes
  run are \<^verbatim>\<open>parse_input\<close>, \<^verbatim>\<open>tool_executor\<close>, \<^verbatim>\<open>response_generator\<close> and no more, so the
  model is not called again.
\<close>

theorem answer_ends_the_run:
  assumes "callOpenRouter (messages state) = Inr reply"
    and "regex_match action_re reply = None"
    and "regex_match answer_re reply = Some [x]"
    and "trim x \<noteq> []"
  shows "graph_run (3 + fuel) callOpenRouter Parse_input state =
           Some (Inr (state\<lparr>messages := messages state @ [\<lparr>role = assistant, content = reply\<rparr>],
                           final_answer := Some (trim x)\<rparr>)) \<and>
         visited (3 + fuel) callOpenRouter Parse_input state =
           [Parse_input, Tool_executor, Response_generator] \<and>
         (\<exists>before w. reply = before @ ''Answer:'' @ w @ x \<and>
            (\<forall>c\<in>set w. is_space c) \<and> (\<forall>c\<in>set x. \<not> is_line_terminator c))"
proof -
  let ?s1 = "state\<lparr>messages := messages state @ [\<lparr>role = assistant, content = reply\<rparr>]\<rparr>"
  let ?s3 = "state\<lparr>messages := messages state @ [\<lparr>role = assistant, content = reply\<rparr>],
                    final_answer := Some (trim x)\<rparr>"
  have p: "parse_input callOpenRouter state = Inr ?s1"
    using assms(1) by (simp add: parse_input_def)
  have t: "tool_executor ?s1 = Inr ?s1"
    using assms(2) by (simp add: tool_executor_def)
  have r: "response_generator ?s1 = Inr ?s3"
    using assms(3) by (simp add: response_generator_def)
  from p t r have c: "cycle callOpenRouter state = Inr ?s3"
    by (simp add: cycle_def)
  have e: "conditional_edge ?s3 = END"
    using assms(4) by (simp add: conditional_edge_def truthy_def)
  have three: "3 + fuel = Suc (Suc (Suc fuel))" by simp
  have "graph_run (3 + fuel) callOpenRouter Parse_input state =
        graph_run fuel callOpenRouter (conditional_edge ?s3) ?s3"
    unfolding three by (rule graph_run_cycle[OF c])
  then have run: "graph_run (3 + fuel) callOpenRouter Parse_input state = Some (Inr ?s3)"
    by (simp only: e graph_run_END)
  have "visited (3 + fuel) callOpenRouter Parse_input state =
        [Parse_input, Tool_executor, Response_generator] @
        visited fuel callOpenRouter (conditional_edge ?s3) ?s3"
    unfolding three by (rule visited_cycle[OF c])
  then have vis: "visited (3 + fuel) callOpenRouter Parse_input state =
        [Parse_input, Tool_executor, Response_generator]"
    by (simp only: e visited_END append_Nil2)
  from answer_match_shape[OF assms(3)]
  have "\<exists>before w. reply = before @ ''Answer:'' @ w @ x \<and>
            (\<forall>c\<in>set w. is_space c) \<and> (\<forall>c\<in>set x. \<not> is_line_terminator c)"
    by auto
  with run vis show ?thesis by simp
qed

theorem answer_ends_the_run_witness:
  "always ''Thought: done.  Answer:  4 '' (messages late_query) =
     Inr ''Thought: done.  Answer:  4 '' \<and>
   regex_match action_re ''Thought: done.  Answer:  4 '' = None \<and>
   regex_match answer_re ''Thought: done.  Answer:  4 '' = Some [''4 ''] \<and>
   trim ''4 '' \<noteq> [] \<and>
   graph_run (3 + 0) (always ''Thought: done.  Answer:  4 '') Parse_input late_query =
     Some (Inr (late_query\<lparr>messages := messages late_query @
                   [\<lparr>role = assistant, content = ''Thought: done.  Answer:  4 ''\<rparr>],
                 final_answer := Some (trim ''4 '')\<rparr>)) \<and>
   visited (3 + 0) (always ''Thought: done.  Answer:  4 '') Parse_input late_query =
     [Parse_input, Tool_executor, Response_generator]"
proof -
  have h1: "always ''Thought: done.  Answer:  4 '' (messages late_query) =
     Inr ''Thought: done.  Answer:  4 ''"
    by (simp add: always_def)
  have h2: "regex_match action_re ''Thought: done.  Answer:  4 '' = None"
    by code_simp
  have h3: "regex_match answer_re ''Thought: done.  Answer:  4 '' = Some [''4 '']"
    by code_simp
  have h4: "trim ''4 '' \<noteq> []"
    by code_simp
  from answer_ends_the_run [where callOpenRouter = "always ''Thought: done.  Answer:  4 ''"
      and state = late_query and fuel = 0, OF h1 h2 h3 h4] h1 h2 h3 h4
  show ?thesis by blast
qed

text \<open>
  C1 as stated fails twice. A reply with an action and \<^verbatim>\<open>Answer: 4\<close> matches the answer
  pattern, but the answer check reads the observation that the action appended: no
  final answer is set and the graph goes back to \<^verbatim>\<open>parse_input\<close>, so the model is called
  again. And in a reply whose \<^verbatim>\<open>Answer:\<close> line is not the last line the pattern does not
  match at all, with the same outcome.
\<close>

theorem answer_with_action_or_not_last_counterexample:
  "regex_match answer_re answer_and_action = Some [''4''] \<and>
   map_sum id (\<lambda>s. (final_answer s, conditional_edge s, map content (drop 2 (messages s))))
     (cycle (always answer_and_action) weather_query) =
     Inr (None, Parse_input, [answer_and_action, ''Observation: 4'']) \<and>
   visited 4 (always answer_and_action) Parse_input weather_query =
     [Parse_input, Tool_executor, Response_generator, Parse_input] \<and>
   regex_match answer_re answer_not_last = None \<and>
   map_sum id (\<lambda>s. (final_answer s, conditional_edge s, map content (drop 2 (messages s))))
     (cycle (always answer_not_last) weather_query) =
     Inr (None, Parse_input, [answer_not_last]) \<and>
   visited 4 (always answer_not_last) Parse_input weather_query =
     [Parse_input, Tool_executor, Response_generator, Parse_input]"
  by code_simp

text \<open>
  C2 (as the code has it). For every input that passes the filter and whose evaluation
  throws, the Calculator returns \<^verbatim>\<open>Error: \<close> followed by the message of the error.
  Division by zero is not such an error: it does not throw, \<^verbatim>\<open>10/0\<close> evaluates to
  \<^verbatim>\<open>Infinity\<close> and the Calculator returns that rendering, whatever the engine does
  outside the arithmetic fragment.
\<close>

theorem calculator_error_text:
  "(regex_test expression_re input \<and>
    Function_call engine (''return ('' @ input @ '')'') = Inl err \<longrightarrow>
      fst (Calculator_run engine input) = ''Error: '' @ message err) \<and>
   fst (Calculator_run engine ''10/0'') = ''Infinity''"
proof
  show "regex_test expression_re input \<and>
    Function_call engine (''return ('' @ input @ '')'') = Inl err \<longrightarrow>
      fst (Calculator_run engine input) = ''Error: '' @ message err"
    by (simp add: Calculator_run_def)
  have t: "regex_test expression_re ''10/0''"
    by code_simp
  have "arith_program ''return (10/0)'' = Some (Infinity False)"
    by code_simp
  then have "Function_call engine (''return ('' @ ''10/0'' @ '')'') = Inr (Number (Infinity False))"
    by (simp add: Function_call_def)
  with t show "fst (Calculator_run engine ''10/0'') = ''Infinity''"
    by (simp add: Calculator_run_def)
qed

theorem calculator_error_text_witness:
  "regex_test expression_re ''2+'' \<and>
   Function_call refusing_engine (''return ('' @ ''2+'' @ '')'') =
     Inl (JSError ''SyntaxError'' ''Unexpected token'') \<and>
   fst (Calculator_run refusing_engine ''2+'') = ''Error: Unexpected token''"
proof -
  have h1: "regex_test expression_re ''2+''"
    by code_simp
  have h2: "Function_call refusing_engine (''return ('' @ ''2+'' @ '')'') =
     Inl (JSError ''SyntaxError'' ''Unexpected token'')"
    by code_simp
  from calculator_error_text [of "''2+''" refusing_engine "JSError ''SyntaxError'' ''Unexpected token''"]
    h1 h2
  show ?thesis by simp
qed

text \<open>
  C2 as stated fails: \<^verbatim>\<open>10/0\<close> passes the filter and the result is the numeric
  rendering \<^verbatim>\<open>Infinity\<close>, not a text that begins with \<^verbatim>\<open>Error: \<close>.
\<close>

theorem calculator_division_by_zero_counterexample:
  "regex_test expression_re ''10/0'' \<and>
   fst (Calculator_run refusing_engine ''10/0'') = ''Infinity'' \<and>
   \<not> prefix ''Error: '' (fst (Calculator_run refusing_engine ''10/0''))"
  by code_simp

text \<open>
  C3 (as the code has it). When the last message holds an action (the pattern matches,
  with groups \<open>toolName\<close> and \<open>toolInput\<close>), \<^verbatim>\<open>tool_executor\<close> does not throw, appends
  exactly one message, of role \<^verbatim>\<open>system\<close> and content \<^verbatim>\<open>Observation: \<close>\<open>text\<close>, and the graph
  goes on to \<^verbatim>\<open>response_generator\<close>. If no registered tool has the trimmed name,
  compared in lower case, \<open>text\<close> is \<^verbatim>\<open>Tool "\<close>\<open>toolName\<close>\<^verbatim>\<open>" not found\<close>. If some registered
  tool has it, the first such tool of the registry is the one found and invoked on the
  trimmed input: if it throws, \<open>text\<close> is \<^verbatim>\<open>Error: \<close> and the message; if it returns,
  \<open>text\<close> is what it returns. The answer check then reads the observation: when the
  answer pattern does not match it, the step counter goes up by one, and if no
  non-empty final answer is present and the new counter is below 10, the graph goes
  back to \<^verbatim>\<open>parse_input\<close>, so the run from the dispatch goes on as a run from the call
  of the model.
\<close>

theorem tool_dispatch_appends_one_observation:
  assumes "messages state \<noteq> []"
    and "regex_match action_re (content (last (messages state))) = Some [toolName, toolInput]"
  shows "\<exists>text.
     tool_executor state =
       Inr (state\<lparr>messages := messages state @
              [\<lparr>role = system, content = ''Observation: '' @ text\<rparr>]\<rparr>) \<and>
     node_step callOpenRouter Tool_executor state =
       Inr (Response_generator,
            state\<lparr>messages := messages state @
              [\<lparr>role = system, content = ''Observation: '' @ text\<rparr>]\<rparr>) \<and>
     ((\<forall>t\<in>set (tools state). toLowerCase (name t) \<noteq> toLowerCase (trim toolName)) \<longrightarrow>
        text = ''Tool '' @ [dquote] @ toolName @ [dquote] @ '' not found'') \<and>
     (\<forall>tool err. find_tool (tools state) toolName = Some tool \<and>
        run tool (trim toolInput) = Inl err \<longrightarrow> text = ''Error: '' @ message err) \<and>
     (\<forall>tool result. find_tool (tools state) toolName = Some tool \<and>
        run tool (trim toolInput) = Inr result \<longrightarrow> text = result) \<and>
     (\<forall>tool. find_tool (tools state) toolName = Some tool \<longrightarrow>
        tool \<in> set (tools state) \<and> toLowerCase (name tool) = toLowerCase (trim toolName)) \<and>
     ((\<exists>t\<in>set (tools state). toLowerCase (name t) = toLowerCase (trim toolName)) \<longrightarrow>
        (\<exists>before tool rest. tools state = before @ tool # rest \<and>
           (\<forall>t\<in>set before. toLowerCase (name t) \<noteq> toLowerCase (trim toolName)) \<and>
           toLowerCase (name tool) = toLowerCase (trim toolName) \<and>
           find_tool (tools state) toolName = Some tool \<and>
           (\<forall>err. run tool (trim toolInput) = Inl err \<longrightarrow> text = ''Error: '' @ message err) \<and>
           (\<forall>result. run tool (trim toolInput) = Inr result \<longrightarrow> text = result))) \<and>
     observed state text =
       state\<lparr>messages := messages state @
              [\<lparr>role = system, content = ''Observation: '' @ text\<rparr>]\<rparr> \<and>
     (regex_match answer_re (''Observation: '' @ text) = None \<longrightarrow>
        response_generator (observed state text) =
          Inr ((observed state text)\<lparr>current_step := current_step state + 1\<rparr>) \<and>
        (\<not> truthy (final_answer state) \<and> current_step state + 1 < 10 \<longrightarrow>
           node_step callOpenRouter Response_generator (observed state text) =
             Inr (Parse_input, (observed state text)\<lparr>current_step := current_step state + 1\<rparr>) \<and>
           graph_run (Suc (Suc fuel)) callOpenRouter Tool_executor state =
             graph_run fuel callOpenRouter Parse_input
               ((observed state text)\<lparr>current_step := current_step state + 1\<rparr>)))"
proof (intro exI conjI)
  let ?text = "observation_text (tools state) toolName toolInput"
  show exec: "tool_executor state =
       Inr (state\<lparr>messages := messages state @
              [\<lparr>role = system, content = ''Observation: '' @ ?text\<rparr>]\<rparr>)"
    using assms by (simp add: tool_executor_def)
  then show "node_step callOpenRouter Tool_executor state =
       Inr (Response_generator,
            state\<lparr>messages := messages state @
              [\<lparr>role = system, content = ''Observation: '' @ ?text\<rparr>]\<rparr>)"
    by simp
  show "(\<forall>t\<in>set (tools state). toLowerCase (name t) \<noteq> toLowerCase (trim toolName)) \<longrightarrow>
        ?text = ''Tool '' @ [dquote] @ toolName @ [dquote] @ '' not found''"
  proof
    assume "\<forall>t\<in>set (tools state). toLowerCase (name t) \<noteq> toLowerCase (trim toolName)"
    then have "find_tool (tools state) toolName = None"
      by (simp add: find_tool_def find_None_iff)
    then show "?text = ''Tool '' @ [dquote] @ toolName @ [dquote] @ '' not found''"
      by (simp add: observation_text_def)
  qed
  show "\<forall>tool err. find_tool (tools state) toolName = Some tool \<and>
        run tool (trim toolInput) = Inl err \<longrightarrow> ?text = ''Error: '' @ message err"
    by (simp add: observation_text_def)
  show "\<forall>tool result. find_tool (tools state) toolName = Some tool \<and>
        run tool (trim toolInput) = Inr result \<longrightarrow> ?text = result"
    by (simp add: observation_text_def)
  show "\<forall>tool. find_tool (tools state) toolName = Some tool \<longrightarrow>
        tool \<in> set (tools state) \<and> toLowerCase (name tool) = toLowerCase (trim toolName)"
    using find_tool_Some by blast
  show "(\<exists>t\<in>set (tools state). toLowerCase (name t) = toLowerCase (trim toolName)) \<longrightarrow>
        (\<exists>before tool rest. tools state = before @ tool # rest \<and>
           (\<forall>t\<in>set before. toLowerCase (name t) \<noteq> toLowerCase (trim toolName)) \<and>
           toLowerCase (name tool) = toLowerCase (trim toolName) \<and>
           find_tool (tools state) toolName = Some tool \<and>
           (\<forall>err. run tool (trim toolInput) = Inl err \<longrightarrow> ?text = ''Error: '' @ message err) \<and>
           (\<forall>result. run tool (trim toolInput) = Inr result \<longrightarrow> ?text = result))"
  proof
    assume "\<exists>t\<in>set (tools state). toLowerCase (name t) = toLowerCase (trim toolName)"
    from find_tool_exists[OF this] obtain before tool rest where
      d: "tools state = before @ tool # rest"
         "\<forall>t\<in>set before. toLowerCase (name t) \<noteq> toLowerCase (trim toolName)"
         "toLowerCase (name tool) = toLowerCase (trim toolName)" and
      f: "find_tool (tools state) toolName = Some tool"
      by blast
    from f have
      "\<forall>err. run tool (trim toolInput) = Inl err \<longrightarrow> ?text = ''Error: '' @ message err"
      "\<forall>result. run tool (trim toolInput) = Inr result \<longrightarrow> ?text = result"
      by (simp_all add: observation_text_def)
    with d f show "\<exists>before tool rest. tools state = before @ tool # rest \<and>
           (\<forall>t\<in>set before. toLowerCase (name t) \<noteq> toLowerCase (trim toolName)) \<and>
           toLowerCase (name tool) = toLowerCase (trim toolName) \<and>
           find_tool (tools state) toolName = Some tool \<and>
           (\<forall>err. run tool (trim toolInput) = Inl err \<longrightarrow> ?text = ''Error: '' @ message err) \<and>
           (\<forall>result. run tool (trim toolInput) = Inr result \<longrightarrow> ?text = result)"
      by blast
  qed
  show obs: "observed state ?text =
       state\<lparr>messages := messages state @
              [\<lparr>role = system, content = ''Observation: '' @ ?text\<rparr>]\<rparr>"
    by (simp add: observed_def)
  show "regex_match answer_re (''Observation: '' @ ?text) = None \<longrightarrow>
        response_generator (observed state ?text) =
          Inr ((observed state ?text)\<lparr>current_step := current_step state + 1\<rparr>) \<and>
        (\<not> truthy (final_answer state) \<and> current_step state + 1 < 10 \<longrightarrow>
           node_step callOpenRouter Response_generator (observed state ?text) =
             Inr (Parse_input, (observed state ?text)\<lparr>current_step := current_step state + 1\<rparr>) \<and>
           graph_run (Suc (Suc fuel)) callOpenRouter Tool_executor state =
             graph_run fuel callOpenRouter Parse_input
               ((observed state ?text)\<lparr>current_step := current_step state + 1\<rparr>))"
  proof (intro impI conjI)
    assume no: "regex_match answer_re (''Observation: '' @ ?text) = None"
    from response_generator_observed[OF no]
    show r: "response_generator (observed state ?text) =
          Inr ((observed state ?text)\<lparr>current_step := current_step state + 1\<rparr>)" .
    assume "\<not> truthy (final_answer state) \<and> current_step state + 1 < 10"
    then have e: "conditional_edge
        ((observed state ?text)\<lparr>current_step := current_step state + 1\<rparr>) = Parse_input"
      by (simp add: conditional_edge_continue)
    from r e show n: "node_step callOpenRouter Response_generator (observed state ?text) =
             Inr (Parse_input, (observed state ?text)\<lparr>current_step := current_step state + 1\<rparr>)"
      by simp
    from exec obs have t: "node_step callOpenRouter Tool_executor state =
        Inr (Response_generator, observed state ?text)"
      by simp
    have "graph_run (Suc (Suc fuel)) callOpenRouter Tool_executor state =
          graph_run (Suc fuel) callOpenRouter Response_generator (observed state ?text)"
      by (simp only: graph_run.simps t) simp
    also have "\<dots> = graph_run fuel callOpenRouter Parse_input
               ((observed state ?text)\<lparr>current_step := current_step state + 1\<rparr>)"
      by (simp only: graph_run.simps n) simp
    finally show "graph_run (Suc (Suc fuel)) callOpenRouter Tool_executor state =
             graph_run fuel callOpenRouter Parse_input
               ((observed state ?text)\<lparr>current_step := current_step state + 1\<rparr>)" .
  qed
qed

theorem tool_dispatch_appends_one_observation_witness:
  "(messages weather_request \<noteq> [] \<and>
    regex_match action_re (content (last (messages weather_request))) =
      Some [''Weather'', ''NYC''] \<and>
    \<not> (\<exists>t\<in>set (tools weather_request). toLowerCase (name t) = toLowerCase (trim ''Weather'')) \<and>
    tool_executor weather_request =
      Inr (weather_request\<lparr>messages := messages weather_request @
        [\<lparr>role = system,
          content = ''Observation: '' @ ''Tool '' @ [dquote] @ ''Weather'' @ [dquote] @ '' not found''\<rparr>]\<rparr>) \<and>
    regex_match answer_re
      (''Observation: '' @ ''Tool '' @ [dquote] @ ''Weather'' @ [dquote] @ '' not found'') = None \<and>
    \<not> truthy (final_answer weather_request) \<and>
    current_step weather_request + 1 < 10 \<and>
    node_step (always ''Action: Weather[NYC]'') Response_generator
      (observed weather_request (''Tool '' @ [dquote] @ ''Weather'' @ [dquote] @ '' not found'')) =
      Inr (Parse_input,
           (observed weather_request (''Tool '' @ [dquote] @ ''Weather'' @ [dquote] @ '' not found''))
             \<lparr>current_step := current_step weather_request + 1\<rparr>) \<and>
    graph_run (Suc (Suc 1)) (always ''Action: Weather[NYC]'') Tool_executor weather_request =
      graph_run 1 (always ''Action: Weather[NYC]'') Parse_input
        ((observed weather_request (''Tool '' @ [dquote] @ ''Weather'' @ [dquote] @ '' not found''))
           \<lparr>current_step := current_step weather_request + 1\<rparr>)) \<and>
   (messages failing_request \<noteq> [] \<and>
    regex_match action_re (content (last (messages failing_request))) =
      Some [''failing'', ''x''] \<and>
    (\<exists>t\<in>set (tools failing_request). toLowerCase (name t) = toLowerCase (trim ''failing'')) \<and>
    find_tool (tools failing_request) ''failing'' = Some Failing \<and>
    run Failing (trim ''x'') = Inl (JSError ''Error'' ''boom'') \<and>
    tool_executor failing_request =
      Inr (failing_request\<lparr>messages := messages failing_request @
        [\<lparr>role = system, content = ''Observation: '' @ ''Error: '' @ ''boom''\<rparr>]\<rparr>)) \<and>
   (messages calculator_request \<noteq> [] \<and>
    regex_match action_re (content (last (messages calculator_request))) =
      Some [''Calculator'', '' 2+2 ''] \<and>
    (\<exists>t\<in>set (tools calculator_request).
        toLowerCase (name t) = toLowerCase (trim ''Calculator'')) \<and>
    find_tool (tools calculator_request) ''Calculator'' = Some (Calculator refusing_engine) \<and>
    run (Calculator refusing_engine) (trim '' 2+2 '') = Inr ''4'' \<and>
    tool_executor calculator_request =
      Inr (calculator_request\<lparr>messages := messages calculator_request @
        [\<lparr>role = system, content = ''Observation: '' @ ''4''\<rparr>]\<rparr>))"
proof (intro conjI)
  let ?nf = "''Tool '' @ [dquote] @ ''Weather'' @ [dquote] @ '' not found''"
  let ?call = "always ''Action: Weather[NYC]''"
  show m1: "messages weather_request \<noteq> []"
    by (simp add: weather_request_def after_reply_def)
  show a1: "regex_match action_re (content (last (messages weather_request))) =
      Some [''Weather'', ''NYC'']"
    by code_simp
  show n0: "\<not> (\<exists>t\<in>set (tools weather_request). toLowerCase (name t) = toLowerCase (trim ''Weather''))"
    by code_simp
  then have n1: "\<forall>t\<in>set (tools weather_request). toLowerCase (name t) \<noteq> toLowerCase (trim ''Weather'')"
    by blast
  show g1: "regex_match answer_re (''Observation: '' @ ?nf) = None"
    by code_simp
  show t1: "\<not> truthy (final_answer weather_request)"
    by (simp add: weather_request_def after_reply_def truthy_def)
  show c1: "current_step weather_request + 1 < 10"
    by (simp add: weather_request_def after_reply_def)
  from tool_dispatch_appends_one_observation [OF m1 a1, where callOpenRouter = ?call and fuel = 1]
  obtain obs where
    e: "tool_executor weather_request =
       Inr (weather_request\<lparr>messages := messages weather_request @
              [\<lparr>role = system, content = ''Observation: '' @ obs\<rparr>]\<rparr>)" and
    f: "(\<forall>t\<in>set (tools weather_request). toLowerCase (name t) \<noteq> toLowerCase (trim ''Weather'')) \<longrightarrow>
        obs = ''Tool '' @ [dquote] @ ''Weather'' @ [dquote] @ '' not found''" and
    k: "regex_match answer_re (''Observation: '' @ obs) = None \<longrightarrow>
        response_generator (observed weather_request obs) =
          Inr ((observed weather_request obs)\<lparr>current_step := current_step weather_request + 1\<rparr>) \<and>
        (\<not> truthy (final_answer weather_request) \<and> current_step weather_request + 1 < 10 \<longrightarrow>
           node_step ?call Response_generator (observed weather_request obs) =
             Inr (Parse_input,
                  (observed weather_request obs)\<lparr>current_step := current_step weather_request + 1\<rparr>) \<and>
           graph_run (Suc (Suc 1)) ?call Tool_executor weather_request =
             graph_run 1 ?call Parse_input
               ((observed weather_request obs)\<lparr>current_step := current_step weather_request + 1\<rparr>))"
    apply (elim exE conjE)
    apply (rule that)
      apply assumption
     apply assumption
    apply assumption
    done
  from f n1 have o: "obs = ?nf" by blast
  from e o show "tool_executor weather_request =
      Inr (weather_request\<lparr>messages := messages weather_request @
        [\<lparr>role = system, content = ''Observation: '' @ ?nf\<rparr>]\<rparr>)"
    by (simp only:)
  from k g1 t1 c1 show "node_step ?call Response_generator (observed weather_request ?nf) =
      Inr (Parse_input,
           (observed weather_request ?nf)\<lparr>current_step := current_step weather_request + 1\<rparr>)"
    unfolding o by blast
  from k g1 t1 c1 show "graph_run (Suc (Suc 1)) ?call Tool_executor weather_request =
      graph_run 1 ?call Parse_input
        ((observed weather_request ?nf)\<lparr>current_step := current_step weather_request + 1\<rparr>)"
    unfolding o by blast
next
  show m2: "messages failing_request \<noteq> []"
    by (simp add: failing_request_def after_reply_def)
  show a2: "regex_match action_re (content (last (messages failing_request))) =
      Some [''failing'', ''x'']"
    by code_simp
  show "\<exists>t\<in>set (tools failing_request). toLowerCase (name t) = toLowerCase (trim ''failing'')"
    by code_simp
  show f2: "find_tool (tools failing_request) ''failing'' = Some Failing"
    by (simp add: failing_request_def after_reply_def find_tool_def Failing_def)
       code_simp
  show r2: "run Failing (trim ''x'') = Inl (JSError ''Error'' ''boom'')"
    by (simp add: Failing_def)
  from tool_dispatch_appends_one_observation [OF m2 a2, where callOpenRouter = "always []"]
  obtain obs where
    "tool_executor failing_request =
       Inr (failing_request\<lparr>messages := messages failing_request @
              [\<lparr>role = system, content = ''Observation: '' @ obs\<rparr>]\<rparr>)"
    "\<forall>tool err. find_tool (tools failing_request) ''failing'' = Some tool \<and>
        run tool (trim ''x'') = Inl err \<longrightarrow> obs = ''Error: '' @ message err"
    by blast
  with f2 r2 show "tool_executor failing_request =
      Inr (failing_request\<lparr>messages := messages failing_request @
        [\<lparr>role = system, content = ''Observation: '' @ ''Error: '' @ ''boom''\<rparr>]\<rparr>)"
    by fastforce
next
  show m3: "messages calculator_request \<noteq> []"
    by (simp add: calculator_request_def after_reply_def)
  show a3: "regex_match action_re (content (last (messages calculator_request))) =
      Some [''Calculator'', '' 2+2 '']"
    by code_simp
  show "\<exists>t\<in>set (tools calculator_request).
        toLowerCase (name t) = toLowerCase (trim ''Calculator'')"
    by code_simp
  show f3: "find_tool (tools calculator_request) ''Calculator'' = Some (Calculator refusing_engine)"
    by (simp add: calculator_request_def after_reply_def find_tool_def tools_array_def)
       code_simp
  show r3: "run (Calculator refusing_engine) (trim '' 2+2 '') = Inr ''4''"
    by code_simp
  from tool_dispatch_appends_one_observation [OF m3 a3, where callOpenRouter = "always []"]
  obtain obs where
    "tool_executor calculator_request =
       Inr (calculator_request\<lparr>messages := messages calculator_request @
              [\<lparr>role = system, content = ''Observation: '' @ obs\<rparr>]\<rparr>)"
    "\<forall>tool result. find_tool (tools calculator_request) ''Calculator'' = Some tool \<and>
        run tool (trim '' 2+2 '') = Inr result \<longrightarrow> obs = result"
    by blast
  with f3 r3 show "tool_executor calculator_request =
      Inr (calculator_request\<lparr>messages := messages calculator_request @
        [\<lparr>role = system, content = ''Observation: '' @ ''4''\<rparr>]\<rparr>)"
    by fastforce
qed

text \<open>
  C3 as stated fails in its last part: the loop does not always continue after an
  observation. The answer check reads the observation, so after the reply
  \<^verbatim>\<open>Action: Answer: x[y]\<close>, which names no registered tool, the text of the observation is
  matched by the answer pattern and the run ends in that cycle, with the end of the
  observation as final answer. And in the tenth cycle the step limit ends the run
  after the observation.
\<close>

theorem observation_ends_the_run_counterexample:
  "messages answer_named_tool \<noteq> [] \<and>
   regex_match action_re (content (last (messages answer_named_tool))) =
     Some [''Answer: x'', ''y''] \<and>
   \<not> (\<exists>t\<in>set (tools answer_named_tool).
         toLowerCase (name t) = toLowerCase (trim ''Answer: x'')) \<and>
   map_sum id (\<lambda>s. map content (drop 2 (messages s))) (tool_executor answer_named_tool) =
     Inr [''Observation: Tool '' @ [dquote] @ ''Answer: x'' @ [dquote] @ '' not found''] \<and>
   visited 5 (always ''Action: Weather[NYC]'') Tool_executor answer_named_tool =
     [Tool_executor, Response_generator] \<and>
   map_option (map_sum id (\<lambda>s. (final_answer s, current_step s)))
     (graph_run 5 (always ''Action: Weather[NYC]'') Tool_executor answer_named_tool) =
     Some (Inr (Some (''x'' @ [dquote] @ '' not found''), 0)) \<and>
   messages late_weather_request \<noteq> [] \<and>
   regex_match action_re (content (last (messages late_weather_request))) =
     Some [''Weather'', ''NYC''] \<and>
   \<not> (\<exists>t\<in>set (tools late_weather_request).
         toLowerCase (name t) = toLowerCase (trim ''Weather'')) \<and>
   visited 5 (always ''Action: Weather[NYC]'') Tool_executor late_weather_request =
     [Tool_executor, Response_generator] \<and>
   map_option (map_sum id (\<lambda>s. (final_answer s, current_step s)))
     (graph_run 5 (always ''Action: Weather[NYC]'') Tool_executor late_weather_request) =
     Some (Inr (None, 10))"
  by code_simp

text \<open>
  C4. A Calculator input with at least one character other than digits,
  \<^verbatim>\<open>. + - * / ( )\<close> and whitespace gets exactly the text \<^verbatim>\<open>Invalid expression\<close>, and
  nothing is handed to the evaluator: the list of evaluated source texts is empty,
  whatever the engine would do.
\<close>

theorem calculator_rejects_other_characters:
  "\<exists>c\<in>set input. \<not> expression_char c \<Longrightarrow>
     Calculator_run engine input = (''Invalid expression'', [])"
  by (simp add: Calculator_run_def expression_test_rejects)

theorem calculator_rejects_other_characters_witness:
  "(\<exists>c\<in>set ''2+2; import os''. \<not> expression_char c) \<and>
   Calculator_run refusing_engine ''2+2; import os'' = (''Invalid expression'', [])"
proof -
  have h: "\<exists>c\<in>set ''2+2; import os''. \<not> expression_char c"
    by code_simp
  from calculator_rejects_other_characters [OF h, of refusing_engine] h
  show ?thesis by simp
qed

text \<open>
  C5. A request whose every reply asks for an unknown tool never gets a final answer:
  the loop, entered at \<^verbatim>\<open>parse_input\<close>, runs its ten cycles and ends at \<^verbatim>\<open>END\<close> with the
  step counter at 10 and the fallback text as answer. The handler does not get there:
  the graph has no entry point, \<^verbatim>\<open>graph.invoke\<close> runs no node and resolves to
  \<^verbatim>\<open>undefined\<close>, reading \<^verbatim>\<open>final_answer\<close> from it throws, and the response has status 500
  with the message of the \<^verbatim>\<open>TypeError\<close>, however much fuel the run is given.
\<close>

theorem step_limit_request_fails:
  "unanswered 10 (always ''Action: Weather[NYC]'') weather_query \<and>
   map_option (map_sum id (\<lambda>s. (final_answer s, current_step s, responseData s)))
     (graph_run 30 (always ''Action: Weather[NYC]'') Parse_input weather_query) =
     Some (Inr (None, 10, ''No answer generated within step limit.'')) \<and>
   weather_query = initial_state refusing_engine ''What is the weather in NYC?'' \<and>
   (\<forall>fuel. graph_invoke fuel (always ''Action: Weather[NYC]'') weather_query =
      Some (Inr None)) \<and>
   (\<forall>fuel. serve_POST fuel refusing_engine (always ''Action: Weather[NYC]'')
      ''What is the weather in NYC?'' =
      Some (Error_500 (''Cannot read properties of undefined (reading '' @ [CHR 0x27] @
        ''final_answer'' @ [CHR 0x27] @ '')'')))"
proof (intro conjI allI)
  show "unanswered 10 (always ''Action: Weather[NYC]'') weather_query"
    by code_simp
  show "map_option (map_sum id (\<lambda>s. (final_answer s, current_step s, responseData s)))
     (graph_run 30 (always ''Action: Weather[NYC]'') Parse_input weather_query) =
     Some (Inr (None, 10, ''No answer generated within step limit.''))"
    by code_simp
  show "weather_query = initial_state refusing_engine ''What is the weather in NYC?''"
    by (simp add: weather_query_def)
  show "graph_invoke fuel (always ''Action: Weather[NYC]'') weather_query = Some (Inr None)"
    for fuel
    by (simp add: graph_invoke_def entry_points_def)
  show "serve_POST fuel refusing_engine (always ''Action: Weather[NYC]'')
      ''What is the weather in NYC?'' =
      Some (Error_500 (''Cannot read properties of undefined (reading '' @ [CHR 0x27] @
        ''final_answer'' @ [CHR 0x27] @ '')''))" for fuel
    by (simp add: serve_POST_def graph_invoke_def entry_points_def error_response_def
        cannot_read_def)
qed

text \<open>
  C6. The nodes of every run that starts at \<^verbatim>\<open>parse_input\<close> come in the fixed order
  \<^verbatim>\<open>parse_input\<close>, \<^verbatim>\<open>tool_executor\<close>, \<^verbatim>\<open>response_generator\<close>, again and again: the node
  run at place \<open>k\<close> is the one at place \<open>k mod 3\<close> of this list. So every answer check
  comes right after a tool dispatch, which comes right after a call of the model.
\<close>

theorem nodes_run_in_fixed_order:
  assumes "k < length (visited fuel callOpenRouter Parse_input state)"
  shows "visited fuel callOpenRouter Parse_input state ! k =
           [Parse_input, Tool_executor, Response_generator] ! (k mod 3) \<and>
         (visited fuel callOpenRouter Parse_input state ! k = Response_generator \<longrightarrow>
            2 \<le> k \<and>
            visited fuel callOpenRouter Parse_input state ! (k - 1) = Tool_executor \<and>
            visited fuel callOpenRouter Parse_input state ! (k - 2) = Parse_input)"
proof -
  let ?v = "visited fuel callOpenRouter Parse_input state"
  have order: "\<And>j. j < length ?v \<Longrightarrow>
      ?v ! j = [Parse_input, Tool_executor, Response_generator] ! (j mod 3)"
  proof -
    fix j assume "j < length ?v"
    from visited_order[OF _ this] show
      "?v ! j = [Parse_input, Tool_executor, Response_generator] ! (j mod 3)" by simp
  qed
  have first: "?v ! k = [Parse_input, Tool_executor, Response_generator] ! (k mod 3)"
    using assms by (rule order)
  have "?v ! k = Response_generator \<longrightarrow>
      2 \<le> k \<and> ?v ! (k - 1) = Tool_executor \<and> ?v ! (k - 2) = Parse_input"
  proof
    assume rg: "?v ! k = Response_generator"
    have "k mod 3 < 3" by simp
    then have "k mod 3 = 0 \<or> k mod 3 = 1 \<or> k mod 3 = 2" by arith
    with first rg have m: "k mod 3 = 2" by auto
    define q where "q = k div 3"
    from m have kq: "k = 3 * q + 2"
      using div_mult_mod_eq[of k 3] by (simp add: q_def)
    then have k2: "2 \<le> k" by simp
    from kq have "k - 1 = 3 * q + 1" and "k - 2 = 3 * q" by simp_all
    then have m1: "(k - 1) mod 3 = 1" and m2: "(k - 2) mod 3 = 0" by simp_all
    from assms have "k - 1 < length ?v" "k - 2 < length ?v" by simp_all
    from order[OF this(1)] order[OF this(2)] m1 m2 k2
    show "2 \<le> k \<and> ?v ! (k - 1) = Tool_executor \<and> ?v ! (k - 2) = Parse_input" by simp
  qed
  with first show ?thesis by simp
qed

theorem nodes_run_in_fixed_order_witness:
  "5 < length (visited 7 (always ''Action: Weather[NYC]'') Parse_input weather_query) \<and>
   visited 7 (always ''Action: Weather[NYC]'') Parse_input weather_query ! 5 =
     Response_generator \<and>
   visited 7 (always ''Action: Weather[NYC]'') Parse_input weather_query ! (5 - 1) =
     Tool_executor \<and>
   visited 7 (always ''Action: Weather[NYC]'') Parse_input weather_query ! (5 - 2) =
     Parse_input"
proof -
  have h: "5 < length (visited 7 (always ''Action: Weather[NYC]'') Parse_input weather_query)"
    by code_simp
  from nodes_run_in_fixed_order [OF h] h show ?thesis by simp
qed

text \<open>
  C7. The step counter starts at 0, no node decreases it, and in every configuration
  that a run from the initial state reaches it lies between 0 and 10.
\<close>

theorem step_counter_bounds:
  "current_step (initial_state engine query) = 0 \<and>
   (node_step callOpenRouter n state = Inr (n', state') \<longrightarrow>
      current_step state \<le> current_step state') \<and>
   (reachable callOpenRouter (initial_state engine query) n state \<longrightarrow>
      0 \<le> current_step state \<and> current_step state \<le> 10)"
proof (intro conjI impI)
  show z: "current_step (initial_state engine query) = 0"
    by (simp add: initial_state_def)
  {
    assume "node_step callOpenRouter n state = Inr (n', state')"
    from node_step_current_step[OF this] show "current_step state \<le> current_step state'"
      by simp
  }
  {
    assume r: "reachable callOpenRouter (initial_state engine query) n state"
    from reachable_invariant[OF r z] show "0 \<le> current_step state" by simp
    from reachable_invariant[OF r z] show "current_step state \<le> 10" by simp
  }
qed

theorem step_counter_bounds_witness:
  "node_step (always ''Action: Weather[NYC]'') Response_generator weather_request =
     Inr (Parse_input, weather_request\<lparr>current_step := 1\<rparr>) \<and>
   current_step weather_request \<le> current_step (weather_request\<lparr>current_step := 1\<rparr>) \<and>
   reachable (always ''Action: Weather[NYC]'')
     (initial_state refusing_engine ''What is the weather in NYC?'') Tool_executor
     ((initial_state refusing_engine ''What is the weather in NYC?'')
        \<lparr>messages := messages (initial_state refusing_engine ''What is the weather in NYC?'') @
           [\<lparr>role = assistant, content = ''Action: Weather[NYC]''\<rparr>]\<rparr>) \<and>
   current_step ((initial_state refusing_engine ''What is the weather in NYC?'')
        \<lparr>messages := messages (initial_state refusing_engine ''What is the weather in NYC?'') @
           [\<lparr>role = assistant, content = ''Action: Weather[NYC]''\<rparr>]\<rparr>) \<le> 10"
proof -
  let ?m = "always ''Action: Weather[NYC]''"
  let ?s0 = "initial_state refusing_engine ''What is the weather in NYC?''"
  let ?s1 = "?s0\<lparr>messages := messages ?s0 @
           [\<lparr>role = assistant, content = ''Action: Weather[NYC]''\<rparr>]\<rparr>"
  have "regex_match answer_re ''Action: Weather[NYC]'' = None"
    by code_simp
  then have n: "node_step ?m Response_generator weather_request =
     Inr (Parse_input, weather_request\<lparr>current_step := 1\<rparr>)"
    by (simp add: response_generator_def weather_request_def after_reply_def
        conditional_edge_def truthy_def)
  have ns: "node_step ?m Parse_input ?s0 = Inr (Tool_executor, ?s1)"
    by (simp add: parse_input_def always_def)
  have r: "reachable ?m ?s0 Tool_executor ?s1"
    by (rule reachable.step[OF reachable.start _ ns]) simp
  from step_counter_bounds [of refusing_engine "''What is the weather in NYC?''" ?m
      Response_generator weather_request Parse_input "weather_request\<lparr>current_step := 1\<rparr>"]
    n
  have a: "current_step weather_request \<le> current_step (weather_request\<lparr>current_step := 1\<rparr>)"
    by blast
  from step_counter_bounds [of refusing_engine "''What is the weather in NYC?''" ?m
      Tool_executor ?s1 n' state'] r
  have b: "current_step ?s1 \<le> 10"
    by blast
  from n a r b show ?thesis by blast
qed

text \<open>
  C8. A completed cycle only appends to the transcript: the messages of before stay
  where they were, the reply of the model comes next as an assistant message, and at
  most one more message follows, a system message that starts with \<^verbatim>\<open>Observation: \<close>.
  The length grows by one or by two.
\<close>

theorem transcript_is_append_only:
  assumes "cycle callOpenRouter state = Inr state'"
  shows "(length (messages state') = length (messages state) + 1 \<or>
          length (messages state') = length (messages state) + 2) \<and>
         take (length (messages state)) (messages state') = messages state \<and>
         (\<forall>i<length (messages state). messages state' ! i = messages state ! i) \<and>
         (\<exists>reply. callOpenRouter (messages state) = Inr reply \<and>
            messages state' ! length (messages state) =
              \<lparr>role = assistant, content = reply\<rparr>) \<and>
         (length (messages state') = length (messages state) + 2 \<longrightarrow>
            (\<exists>obs. last (messages state') =
               \<lparr>role = system, content = ''Observation: '' @ obs\<rparr>))"
proof -
  from cycle_fields[OF assms] obtain s1 s2 where
    p: "parse_input callOpenRouter state = Inr s1" and t: "tool_executor s1 = Inr s2" and
    r: "response_generator s2 = Inr state'"
    by blast
  from parse_input_fields[OF p] obtain reply where
    reply: "callOpenRouter (messages state) = Inr reply"
      "messages s1 = messages state @ [\<lparr>role = assistant, content = reply\<rparr>]"
    by blast
  from response_generator_fields[OF r] have same: "messages state' = messages s2" by simp
  from tool_executor_fields[OF t] have
    "messages s2 = messages s1 \<or>
     (\<exists>obs. messages s2 = messages s1 @ [\<lparr>role = system, content = ''Observation: '' @ obs\<rparr>])"
    by simp
  then show ?thesis
  proof
    assume "messages s2 = messages s1"
    with same reply have m: "messages state' =
        messages state @ [\<lparr>role = assistant, content = reply\<rparr>]" by simp
    with reply(1) show ?thesis by (auto simp: nth_append)
  next
    assume "\<exists>obs. messages s2 =
        messages s1 @ [\<lparr>role = system, content = ''Observation: '' @ obs\<rparr>]"
    then obtain obs where "messages s2 =
        messages s1 @ [\<lparr>role = system, content = ''Observation: '' @ obs\<rparr>]" by blast
    with same reply have m: "messages state' =
        messages state @ [\<lparr>role = assistant, content = reply\<rparr>,
                          \<lparr>role = system, content = ''Observation: '' @ obs\<rparr>]" by simp
    with reply(1) show ?thesis by (auto simp: nth_append)
  qed
qed

theorem transcript_is_append_only_witness:
  "\<exists>state'. cycle (always ''Action: Calculator[2+2]'') late_query = Inr state' \<and>
     length (messages state') = length (messages late_query) + 2 \<and>
     take (length (messages late_query)) (messages state') = messages late_query \<and>
     (\<exists>obs. last (messages state') = \<lparr>role = system, content = ''Observation: '' @ obs\<rparr>)"
proof -
  have "case cycle (always ''Action: Calculator[2+2]'') late_query of
          Inl err \<Rightarrow> False
        | Inr state' \<Rightarrow> length (messages state') = length (messages late_query) + 2"
    by code_simp
  then obtain state' where
    c: "cycle (always ''Action: Calculator[2+2]'') late_query = Inr state'" and
    l: "length (messages state') = length (messages late_query) + 2"
    by (auto split: sum.splits)
  from transcript_is_append_only [OF c] c l show ?thesis by blast
qed

text \<open>
  C9. Only the first occurrence of the action pattern in the last message is honoured:
  when \<open>i\<close> is the first position at which the pattern matches, with groups \<open>toolName\<close>
  and \<open>toolInput\<close>, \<^verbatim>\<open>tool_executor\<close> appends the one observation of that tool and that
  input, whatever matches at later positions. When the pattern matches at no position,
  \<^verbatim>\<open>tool_executor\<close> returns the state as it is, without an error, and the graph goes on.
\<close>

theorem only_first_action_is_dispatched:
  assumes "messages state \<noteq> []"
    and "content (last (messages state)) = c"
  shows "((\<forall>k\<le>length c. matches action_re k (drop k c) = None) \<longrightarrow>
            tool_executor state = Inr state \<and>
            node_step callOpenRouter Tool_executor state = Inr (Response_generator, state)) \<and>
         (\<forall>i toolName toolInput.
            i \<le> length c \<and> matches action_re i (drop i c) = Some [toolName, toolInput] \<and>
            (\<forall>j<i. matches action_re j (drop j c) = None) \<longrightarrow>
            tool_executor state =
              Inr (state\<lparr>messages := messages state @
                     [\<lparr>role = system,
                       content = ''Observation: '' @
                         observation_text (tools state) toolName toolInput\<rparr>]\<rparr>))"
proof (intro conjI allI impI)
  assume none: "\<forall>k\<le>length c. matches action_re k (drop k c) = None"
  have "search action_re 0 c = None"
    unfolding search_None_iff using none by simp
  then have "regex_match action_re c = None" by (simp add: regex_match_def)
  with assms show "tool_executor state = Inr state"
    by (simp add: tool_executor_def)
  then show "node_step callOpenRouter Tool_executor state = Inr (Response_generator, state)"
    by simp
next
  fix i toolName toolInput
  assume first: "i \<le> length c \<and> matches action_re i (drop i c) = Some [toolName, toolInput] \<and>
            (\<forall>j<i. matches action_re j (drop j c) = None)"
  have "search action_re 0 c = Some [toolName, toolInput]"
  proof (rule search_first[of i])
    show "i \<le> length c" using first by simp
    show "matches action_re (0 + i) (drop i c) = Some [toolName, toolInput]"
      using first by simp
    show "\<forall>j<i. matches action_re (0 + j) (drop j c) = None" using first by simp
  qed
  then have "regex_match action_re c = Some [toolName, toolInput]"
    by (simp add: regex_match_def)
  with assms show "tool_executor state =
              Inr (state\<lparr>messages := messages state @
                     [\<lparr>role = system,
                       content = ''Observation: '' @
                         observation_text (tools state) toolName toolInput\<rparr>]\<rparr>)"
    by (simp add: tool_executor_def)
qed

theorem only_first_action_is_dispatched_witness:
  "(messages two_actions \<noteq> [] \<and>
    content (last (messages two_actions)) =
      ''Action: Weather[NYC] and then Action: Calculator[1+1]'' \<and>
    matches action_re 0 (drop 0 ''Action: Weather[NYC] and then Action: Calculator[1+1]'') =
      Some [''Weather'', ''NYC''] \<and>
    matches action_re 30 (drop 30 ''Action: Weather[NYC] and then Action: Calculator[1+1]'') =
      Some [''Calculator'', ''1+1''] \<and>
    tool_executor two_actions =
      Inr (two_actions\<lparr>messages := messages two_actions @
             [\<lparr>role = system,
               content = ''Observation: '' @
                 observation_text (tools two_actions) ''Weather'' ''NYC''\<rparr>]\<rparr>)) \<and>
   (messages no_action \<noteq> [] \<and>
    content (last (messages no_action)) = ''Thought: nothing to do yet.'' \<and>
    \<not> (\<exists>k\<le>length ''Thought: nothing to do yet.''.
       matches action_re k (drop k ''Thought: nothing to do yet.'') \<noteq> None) \<and>
    tool_executor no_action = Inr no_action)"
proof (intro conjI)
  show m1: "messages two_actions \<noteq> []"
    by (simp add: two_actions_def after_reply_def)
  show c1: "content (last (messages two_actions)) =
      ''Action: Weather[NYC] and then Action: Calculator[1+1]''"
    by (simp add: two_actions_def after_reply_def)
  show a1: "matches action_re 0 (drop 0 ''Action: Weather[NYC] and then Action: Calculator[1+1]'') =
      Some [''Weather'', ''NYC'']"
    by code_simp
  show "matches action_re 30 (drop 30 ''Action: Weather[NYC] and then Action: Calculator[1+1]'') =
      Some [''Calculator'', ''1+1'']"
    by code_simp
  note first = only_first_action_is_dispatched [OF m1 c1, where callOpenRouter = "always []",
      THEN conjunct2, rule_format, of 0 "''Weather''" "''NYC''"]
  show "tool_executor two_actions =
      Inr (two_actions\<lparr>messages := messages two_actions @
             [\<lparr>role = system,
               content = ''Observation: '' @
                 observation_text (tools two_actions) ''Weather'' ''NYC''\<rparr>]\<rparr>)"
    using a1 by (intro first) simp
next
  show m2: "messages no_action \<noteq> []"
    by (simp add: no_action_def after_reply_def)
  show c2: "content (last (messages no_action)) = ''Thought: nothing to do yet.''"
    by (simp add: no_action_def after_reply_def)
  have "search action_re 0 ''Thought: nothing to do yet.'' = None"
    by code_simp
  then have n2: "\<forall>k\<le>length ''Thought: nothing to do yet.''.
       matches action_re k (drop k ''Thought: nothing to do yet.'') = None"
    unfolding search_None_iff by simp
  show "\<not> (\<exists>k\<le>length ''Thought: nothing to do yet.''.
       matches action_re k (drop k ''Thought: nothing to do yet.'') \<noteq> None)"
  proof (intro notI, elim exE conjE)
    fix k
    assume k: "k \<le> length ''Thought: nothing to do yet.''"
      and some: "matches action_re k (drop k ''Thought: nothing to do yet.'') \<noteq> None"
    have "matches action_re k (drop k ''Thought: nothing to do yet.'') = None"
      by (rule n2[rule_format, OF k])
    with some show False by contradiction
  qed
  from only_first_action_is_dispatched [OF m2 c2, where callOpenRouter = "always []"] n2
  show "tool_executor no_action = Inr no_action"
    by blast
qed

text \<open>
  C10 (as the code has it). A directive with an empty argument (\<^verbatim>\<open>Action: Calculator[]\<close>:
  the first \<^verbatim>\<open>[\<close> after \<^verbatim>\<open>Action:\<close> is closed at once) or with nothing at all between
  \<^verbatim>\<open>Action:\<close> and \<^verbatim>\<open>[\<close> (\<^verbatim>\<open>Action:[2+2]\<close>) is not an action: when every occurrence of
  \<^verbatim>\<open>Action:\<close> in the last message has one of these two shapes, the pattern does not
  match and \<^verbatim>\<open>tool_executor\<close> returns the state as it is.
\<close>

theorem empty_directive_is_no_action:
  assumes "messages state \<noteq> []"
    and "content (last (messages state)) = c"
    and "\<forall>i<length c. prefix ''Action:'' (drop i c) \<longrightarrow>
           empty_argument (drop (i + 7) c) \<or> empty_name (drop (i + 7) c)"
  shows "regex_match action_re c = None \<and> tool_executor state = Inr state"
proof -
  have none: "regex_match action_re c = None"
  proof (rule ccontr)
    assume "regex_match action_re c \<noteq> None"
    then obtain g where "search action_re 0 c = Some g"
      by (auto simp: regex_match_def)
    from search_SomeD[OF this] obtain k where
      k: "k \<le> length c" and m: "matches action_re (0 + k) (drop k c) = Some g"
      by blast
    from action_match_shape[OF m] have
      p: "prefix ''Action:'' (drop k c)" and
      n: "\<not> empty_name (drop 7 (drop k c))" and
      a: "\<not> empty_argument (drop 7 (drop k c))"
      by simp_all
    from p have "drop k c \<noteq> []" by auto
    with k have "k < length c" by simp
    with assms(3) p have "empty_argument (drop (k + 7) c) \<or> empty_name (drop (k + 7) c)"
      by blast
    moreover have "drop 7 (drop k c) = drop (k + 7) c"
      by (simp add: add.commute)
    ultimately show False using n a by simp
  qed
  with assms(1,2) have "tool_executor state = Inr state"
    by (simp add: tool_executor_def)
  with none show ?thesis by simp
qed

theorem empty_directive_is_no_action_witness:
  "messages empty_directives \<noteq> [] \<and>
   content (last (messages empty_directives)) = ''Action: Calculator[] Action:[2+2]'' \<and>
   all_suffixes
     (\<lambda>s. prefix ''Action:'' s \<longrightarrow> empty_argument (drop 7 s) \<or> empty_name (drop 7 s))
     ''Action: Calculator[] Action:[2+2]'' \<and>
   regex_match action_re ''Action: Calculator[] Action:[2+2]'' = None \<and>
   tool_executor empty_directives = Inr empty_directives"
proof -
  have m: "messages empty_directives \<noteq> []"
    by (simp add: empty_directives_def after_reply_def)
  have c: "content (last (messages empty_directives)) = ''Action: Calculator[] Action:[2+2]''"
    by (simp add: empty_directives_def after_reply_def)
  have a: "all_suffixes
      (\<lambda>s. prefix ''Action:'' s \<longrightarrow> empty_argument (drop 7 s) \<or> empty_name (drop 7 s))
      ''Action: Calculator[] Action:[2+2]''"
    by code_simp
  then have h: "\<forall>i<length ''Action: Calculator[] Action:[2+2]''.
      prefix ''Action:'' (drop i ''Action: Calculator[] Action:[2+2]'') \<longrightarrow>
        empty_argument (drop (i + 7) ''Action: Calculator[] Action:[2+2]'') \<or>
        empty_name (drop (i + 7) ''Action: Calculator[] Action:[2+2]'')"
    unfolding all_suffixes_iff by (simp add: add.commute)
  from empty_directive_is_no_action [OF m c h] m c a show ?thesis by blast
qed

text \<open>
  C10 as stated fails for the empty tool name: in \<^verbatim>\<open>Action: [2+2]\<close> the pattern gives the
  space back to the group of the name, the directive is recognised with the name
  \<^verbatim>\<open>" "\<close>, and an observation is appended.
\<close>

theorem blank_tool_name_counterexample:
  "regex_match action_re ''Action: [2+2]'' = Some ['' '', ''2+2''] \<and>
   map_sum id (\<lambda>s. map content (messages s)) (tool_executor blank_name) =
     Inr [''q'', ''Action: [2+2]'',
          ''Observation: Tool '' @ [dquote] @ '' '' @ [dquote] @ '' not found''] \<and>
   map_sum id (\<lambda>s. length (messages s)) (tool_executor blank_name) \<noteq>
     Inr (length (messages blank_name))"
  by code_simp

end
